theory Spec2Isabelle
  imports Main "HOL-Library.Char_ord" "HOL-Library.List_Lexorder"
begin

text \<open>
  The program \<open>scraper.py\<close> searches a card catalogue for a name, follows each result
  to its detail page, extracts the URL of the card image and saves the image, skipping
  files that are already there. Its functions are embedded below in the order of the
  source; what the program reads from the network, from standard input and from the
  disk is explicit, and so is what it prints, requests and writes.
\<close>

section \<open>Python string operations used by scraper.py\<close>

text \<open>
  A Python \<open>str\<close> is modelled as a \<open>string\<close> whose characters are code points below 256;
  pages and names with other characters are outside the model. \<open>ord\<close> is Python's
  \<open>ord\<close>.
\<close>

definition ord :: "char \<Rightarrow> nat" where
  "ord c = of_char c"

text \<open>\<open>s.startswith(p)\<close>\<close>

fun startswith :: "string \<Rightarrow> string \<Rightarrow> bool" where
  "startswith [] s = True"
| "startswith (p # ps) [] = False"
| "startswith (p # ps) (c # cs) = (p = c \<and> startswith ps cs)"

text \<open>\<open>sub in s\<close> for strings\<close>

fun contains :: "string \<Rightarrow> string \<Rightarrow> bool" where
  "contains sub [] = (sub = [])"
| "contains sub (c # cs) = (startswith sub (c # cs) \<or> contains sub cs)"

text \<open>\<open>s.split(sep)[0]\<close> and \<open>s.split(sep)[-1]\<close> for a one-character separator\<close>

definition split_first :: "char \<Rightarrow> string \<Rightarrow> string" where
  "split_first sep s = takeWhile (\<lambda>c. c \<noteq> sep) s"

definition split_last :: "char \<Rightarrow> string \<Rightarrow> string" where
  "split_last sep s = rev (takeWhile (\<lambda>c. c \<noteq> sep) (rev s))"

text \<open>\<open>s.lower()\<close>: the ASCII capitals and the Latin-1 capitals (0xC0..0xDE but 0xD7)\<close>

definition lower_char :: "char \<Rightarrow> char" where
  "lower_char c =
     (let n = ord c
      in if (65 \<le> n \<and> n \<le> 90) \<or> (192 \<le> n \<and> n \<le> 222 \<and> n \<noteq> 215)
         then char_of (n + 32) else c)"

definition lower :: "string \<Rightarrow> string" where
  "lower s = map lower_char s"

text \<open>\<open>s.strip()\<close>: the characters below 256 for which \<open>str.isspace\<close> holds\<close>

definition isspace :: "char \<Rightarrow> bool" where
  "isspace c =
     (let n = ord c
      in (9 \<le> n \<and> n \<le> 13) \<or> (28 \<le> n \<and> n \<le> 32) \<or> n = 133 \<or> n = 160)"

definition strip :: "string \<Rightarrow> string" where
  "strip s = rev (dropWhile isspace (rev (dropWhile isspace s)))"

text \<open>\<open>\d\<close> on code points below 256, and the value of a string of digits\<close>

definition isdigit :: "char \<Rightarrow> bool" where
  "isdigit c = (48 \<le> ord c \<and> ord c \<le> 57)"

definition int_of_digits :: "string \<Rightarrow> nat" where
  "int_of_digits ds = foldl (\<lambda>n c. 10 * n + (ord c - 48)) 0 ds"

text \<open>
  \<open>int(ds)\<close> for a string of digits. The interpreter refuses a string of more digits than
  its limit \<open>sys.get_int_max_str_digits()\<close> allows (4300 unless it is changed; 0 when there
  is no limit) and raises \<open>ValueError\<close>, here \<open>None\<close>; strings of up to 640 digits are
  never refused.
\<close>

definition py_int :: "nat \<Rightarrow> string \<Rightarrow> nat option" where
  "py_int max_str_digits ds =
     (if 640 < length ds \<and> 0 < max_str_digits \<and> max_str_digits < length ds
      then None else Some (int_of_digits ds))"

section \<open>The regular expressions\<close>

text \<open>
  \<open>after_seg lit s\<close> lists every \<open>r\<close> with \<open>s = seg @ lit @ r\<close> where \<open>seg\<close> matches
  \<open>[^/]+\<close>: the ways the regular expression engine can match \<open>[^/]+lit\<close> at the start
  of \<open>s\<close>.
\<close>

fun strip_prefix :: "string \<Rightarrow> string \<Rightarrow> string option" where
  "strip_prefix [] s = Some s"
| "strip_prefix (p # ps) [] = None"
| "strip_prefix (p # ps) (c # cs) = (if p = c then strip_prefix ps cs else None)"

fun after_seg :: "string \<Rightarrow> string \<Rightarrow> string list" where
  "after_seg lit [] = []"
| "after_seg lit (c # cs) =
     (if c = CHR ''/'' then []
      else (case strip_prefix lit cs of Some r \<Rightarrow> [r] | None \<Rightarrow> []) @ after_seg lit cs)"

text \<open>\<open>re.match(r'^/[^/]+-Expansion/[^/]+-Card-[^#]+', href)\<close> finds a match\<close>

definition nonhash_start :: "string \<Rightarrow> bool" where
  "nonhash_start s = (case s of [] \<Rightarrow> False | c # cs \<Rightarrow> c \<noteq> CHR ''#'')"

definition card_href_match :: "string \<Rightarrow> bool" where
  "card_href_match href =
     (case href of
        [] \<Rightarrow> False
      | c # r \<Rightarrow> c = CHR ''/'' \<and>
          list_ex (\<lambda>r1. list_ex nonhash_start (after_seg ''-Card-'' r1))
            (after_seg ''-Expansion/'' r))"

text \<open>
  \<open>re.search(r'[?&]p=(\d+)', href)\<close>: group 1 of the leftmost match, the longest run of
  digits after the first \<open>?p=\<close> or \<open>&p=\<close> that a digit follows.
\<close>

fun search_page_param :: "string \<Rightarrow> string option" where
  "search_page_param [] = None"
| "search_page_param (c # cs) =
     (if (c = CHR ''?'' \<or> c = CHR ''&'') \<and> startswith ''p='' cs
         \<and> takeWhile isdigit (drop 2 cs) \<noteq> []
      then Some (takeWhile isdigit (drop 2 cs))
      else search_page_param cs)"

text \<open>
  \<open>re.match(r"^[A-Za-z0-9\- '\.]+$", name)\<close>: \<open>$\<close> also matches before one final newline.
\<close>

definition allowed_char :: "char \<Rightarrow> bool" where
  "allowed_char c =
     (let n = ord c
      in (65 \<le> n \<and> n \<le> 90) \<or> (97 \<le> n \<and> n \<le> 122) \<or> (48 \<le> n \<and> n \<le> 57)
         \<or> n = 45 \<or> n = 32 \<or> n = 39 \<or> n = 46)"

definition is_valid_input :: "string \<Rightarrow> bool" where
  "is_valid_input pokemon_name =
     (let body = (if pokemon_name \<noteq> [] \<and> last pokemon_name = CHR 0x0A
                  then butlast pokemon_name else pokemon_name)
      in body \<noteq> [] \<and> list_all allowed_char body)"

section \<open>Parsed markup\<close>

text \<open>
  The tree BeautifulSoup builds, restricted to what the program reads: each tag has a
  name, the list of its classes (the multi-valued \<open>class\<close> attribute), its other
  attributes and its child tags. Text nodes are left out: no lookup of the program
  reads them.
\<close>

datatype tag = Tag (tag_name: string) (tag_classes: "string list")
  (tag_attrs: "(string \<times> string) list") (tag_contents: "tag list")

type_synonym soup = "tag list"

fun descendants :: "tag \<Rightarrow> tag list" where
  "descendants (Tag n cl a cs) = concat (map (\<lambda>c. c # descendants c) cs)"

definition all_tags :: "soup \<Rightarrow> tag list" where
  "all_tags sp = concat (map (\<lambda>c. c # descendants c) sp)"

text \<open>\<open>tag.get(key)\<close> and \<open>tag.get(key, default)\<close>\<close>

definition get :: "tag \<Rightarrow> string \<Rightarrow> string option" where
  "get t k = map_of (tag_attrs t) k"

definition get_default :: "tag \<Rightarrow> string \<Rightarrow> string \<Rightarrow> string" where
  "get_default t k d = (case get t k of None \<Rightarrow> d | Some v \<Rightarrow> v)"

section \<open>Requests, the remote site, and the program state\<close>

datatype param = Str string | Num nat

record request =
  req_url :: string
  req_params :: "(string \<times> param) list"
  req_headers :: "(string \<times> string) list"
  req_stream :: bool
  req_timeout :: "nat option"

definition user_agent :: "(string \<times> string) list" where
  "user_agent = [(''User-Agent'', ''Mozilla/5.0 (X11; Linux x86_64) AppleWebKit/537.36'')]"

text \<open>
  The surroundings of the program: the remote site, as the program sees it through
  \<open>requests\<close> and BeautifulSoup, and two limits of the interpreter. Both oracles of the
  site take the number of requests issued so far, so that the site may answer the same
  request differently at different times.
  \<^item> \<open>fetch_page t rq\<close> is \<open>None\<close> when \<open>requests.get\<close> or \<open>raise_for_status\<close> raises
    (connection error, timeout, non-success status), and otherwise the parsed body.
  \<^item> \<open>fetch_stream t rq\<close> is \<open>None\<close> when \<open>requests.get(..., stream=True)\<close> or
    \<open>raise_for_status\<close> raises; otherwise the chunks that \<open>iter_content\<close> yields and
    whether the iteration ends normally (\<open>True\<close>) or raises after them (\<open>False\<close>: the
    body of a streamed response is read lazily, after \<open>get\<close> has returned).
  \<^item> \<open>int_max_str_digits\<close> is the limit of \<open>py_int\<close>.
  \<^item> \<open>recursion_limit\<close> is the number of calls of \<open>download_pokemon_cards\<close> that can
    be active at once before the interpreter raises \<open>RecursionError\<close> (about 493 with the
    default limit of 1000 frames: each nested call takes two frames, its own and the one
    of \<open>main\<close>). The frames of library calls are not counted.
\<close>

record world =
  fetch_page :: "nat \<Rightarrow> request \<Rightarrow> soup option"
  fetch_stream :: "nat \<Rightarrow> request \<Rightarrow> (string list \<times> bool) option"
  int_max_str_digits :: nat
  recursion_limit :: nat

datatype message =
    Msg_search_error
  | Msg_card_page_error
  | Msg_image_error
  | Msg_pagination_error
  | Msg_searching string
  | Msg_no_results string
  | Msg_found_pages nat
  | Msg_scraping nat nat
  | Msg_found_unique nat
  | Msg_processing nat nat string
  | Msg_already string
  | Msg_downloaded string
  | Msg_failed string
  | Msg_no_image
  | Msg_error
  | Msg_complete nat string
  | Msg_invalid
  | Msg_exiting
  | Msg_no_name

datatype prompt = Prompt_first | Prompt_next

datatype event =
    Http_get request
  | Print message
  | Sleep nat
  | Mkdir string
  | Write_file string
  | Input prompt

text \<open>
  The state threaded through the program: the number of requests issued, the files on
  disk (path to content), the lines still to be read from standard input, the events
  so far, oldest first, and the number of calls of \<open>download_pokemon_cards\<close> that
  enclose the running one. \<open>Sleep\<close> counts milliseconds.
\<close>

record state =
  clock :: nat
  files :: "string \<rightharpoonup> string"
  stdin :: "string list"
  trace :: "event list"
  depth :: nat

definition emit :: "event \<Rightarrow> state \<Rightarrow> state" where
  "emit e s = s\<lparr>trace := trace s @ [e]\<rparr>"

definition http_get :: "request \<Rightarrow> state \<Rightarrow> state" where
  "http_get rq s = s\<lparr>clock := Suc (clock s), trace := trace s @ [Http_get rq]\<rparr>"

section \<open>search_pokemon_cards\<close>

definition search_request :: "string \<Rightarrow> nat \<Rightarrow> request" where
  "search_request pokemon_name page =
     \<lparr>req_url = ''https://www.pokellector.com/search'',
      req_params = [(''criteria'', Str (lower pokemon_name)), (''p'', Num page)],
      req_headers = user_agent, req_stream = False, req_timeout = Some 10\<rparr>"

text \<open>\<open>soup.find_all('a', href=True)\<close>, as the list of the \<open>href\<close> values\<close>

definition anchor_hrefs :: "soup \<Rightarrow> string list" where
  "anchor_hrefs sp =
     List.map_filter (\<lambda>t. if tag_name t = ''a'' then get t ''href'' else None) (all_tags sp)"

text \<open>The body of the loop of lines 26 to 32\<close>

definition add_card_link :: "string list \<Rightarrow> string \<Rightarrow> string list" where
  "add_card_link card_links href =
     (if card_href_match href
      then (let clean_href = split_first (CHR ''#'') href;
                full_url = ''https://www.pokellector.com'' @ clean_href
            in if full_url \<notin> set card_links then card_links @ [full_url] else card_links)
      else card_links)"

definition card_links_of :: "soup \<Rightarrow> string list" where
  "card_links_of sp = foldl add_card_link [] (anchor_hrefs sp)"

definition search_pokemon_cards :: "world \<Rightarrow> string \<Rightarrow> nat \<Rightarrow> state \<Rightarrow> string list \<times> state" where
  "search_pokemon_cards w pokemon_name page s =
     (let rq = search_request pokemon_name page; s1 = http_get rq s
      in case fetch_page w (clock s) rq of
           None \<Rightarrow> ([], emit (Print Msg_search_error) s1)
         | Some sp \<Rightarrow> (card_links_of sp, s1))"

section \<open>get_card_image_url\<close>

definition image_host :: string where
  "image_host = ''den-cards.pokellector.com''"

definition image_ext_ok :: "string \<Rightarrow> bool" where
  "image_ext_ok src =
     (lower (split_last (CHR ''.'') src) \<in> set [''png'', ''jpg'', ''jpeg'', ''webp''])"

text \<open>Lines 52 to 58: the first \<open>div\<close> of class \<open>card\<close>, and the first \<open>img\<close> inside it\<close>

definition is_card_div :: "tag \<Rightarrow> bool" where
  "is_card_div t = (tag_name t = ''div'' \<and> ''card'' \<in> set (tag_classes t))"

definition is_img :: "tag \<Rightarrow> bool" where
  "is_img t = (tag_name t = ''img'')"

definition tier1 :: "soup \<Rightarrow> string option" where
  "tier1 sp =
     (case List.find is_card_div (all_tags sp) of
        None \<Rightarrow> None
      | Some card_div \<Rightarrow>
          (case List.find is_img (descendants card_div) of
             None \<Rightarrow> None
           | Some img \<Rightarrow>
               (let src = get_default img ''src'' []
                in if src \<noteq> [] \<and> contains image_host src \<and> image_ext_ok src
                   then Some src else None)))"

text \<open>Lines 61 to 70: the first \<open>og:image\<close> meta tag, then the first \<open>itemprop=image\<close> one\<close>

definition meta_content :: "string \<Rightarrow> string \<Rightarrow> soup \<Rightarrow> string option" where
  "meta_content key val sp =
     (case List.find (\<lambda>t. tag_name t = ''meta'' \<and> get t key = Some val) (all_tags sp) of
        None \<Rightarrow> None
      | Some meta \<Rightarrow>
          (case get meta ''content'' of
             None \<Rightarrow> None
           | Some src \<Rightarrow> if src \<noteq> [] \<and> contains image_host src then Some src else None))"

definition tier2 :: "soup \<Rightarrow> string option" where
  "tier2 sp =
     (case meta_content ''property'' ''og:image'' sp of
        Some src \<Rightarrow> Some src
      | None \<Rightarrow> meta_content ''itemprop'' ''image'' sp)"

text \<open>Lines 73 to 76: every \<open>img\<close> of the page, in document order\<close>

definition img_srcs :: "soup \<Rightarrow> string list" where
  "img_srcs sp =
     map (\<lambda>t. get_default t ''src'' []) (filter is_img (all_tags sp))"

definition tier3 :: "soup \<Rightarrow> string option" where
  "tier3 sp = List.find (\<lambda>src. contains image_host src \<and> image_ext_ok src) (img_srcs sp)"

text \<open>Lines 50 to 78: each tier returns from the function as soon as it has a URL\<close>

definition image_url_of :: "soup \<Rightarrow> string option" where
  "image_url_of sp =
     (case tier1 sp of
        Some src \<Rightarrow> Some src
      | None \<Rightarrow>
          (case tier2 sp of
             Some src \<Rightarrow> Some src
           | None \<Rightarrow> tier3 sp))"

definition card_request :: "string \<Rightarrow> request" where
  "card_request card_url =
     \<lparr>req_url = card_url, req_params = [], req_headers = user_agent,
      req_stream = False, req_timeout = Some 10\<rparr>"

definition get_card_image_url ::
  "world \<Rightarrow> string \<Rightarrow> string option \<Rightarrow> state \<Rightarrow> string option \<times> state" where
  "get_card_image_url w card_url pokemon_name s =
     (let rq = card_request card_url; s1 = http_get rq s
      in case fetch_page w (clock s) rq of
           None \<Rightarrow> (None, emit (Print Msg_card_page_error) s1)
         | Some sp \<Rightarrow> (image_url_of sp, s1))"

section \<open>download_image\<close>

datatype exn = Stream_error | FileNotFoundError | EOFError | RecursionError

definition image_request :: "string \<Rightarrow> request" where
  "image_request image_url =
     \<lparr>req_url = image_url, req_params = [], req_headers = user_agent,
      req_stream = True, req_timeout = Some 10\<rparr>"

text \<open>
  The file is opened (created or truncated) once the request has succeeded; the chunks
  read before an error of the stream stay in it, and the error leaves the function as
  an exception, since lines 93 to 95 are outside the \<open>try\<close>. So does the error of
  \<open>open\<close> on the empty path; any other path is taken to open.
\<close>

definition download_image :: "world \<Rightarrow> string \<Rightarrow> string \<Rightarrow> state \<Rightarrow> (exn + bool) \<times> state" where
  "download_image w image_url output_path s =
     (let rq = image_request image_url; s1 = http_get rq s
      in case fetch_stream w (clock s) rq of
           None \<Rightarrow> (Inr False, emit (Print Msg_image_error) s1)
         | Some (chunks, complete) \<Rightarrow>
             if output_path = [] then (Inl FileNotFoundError, s1)
             else
               (let s2 = emit (Write_file output_path)
                           (s1\<lparr>files := (files s1)(output_path \<mapsto> concat chunks)\<rparr>)
                in if complete then (Inr True, s2) else (Inl Stream_error, s2)))"

section \<open>get_total_pages\<close>

text \<open>
  The body of the loop of lines 113 to 121. The bare \<open>except\<close> of line 120 catches the
  \<open>ValueError\<close> of \<open>int\<close>, and the link is skipped.
\<close>

definition update_max_page :: "world \<Rightarrow> nat \<Rightarrow> string \<Rightarrow> nat" where
  "update_max_page w max_page href =
     (if contains ''?p='' href \<or> contains ''&p='' href
      then (case search_page_param href of
              Some digits \<Rightarrow>
                (case py_int (int_max_str_digits w) digits of
                   Some page_num \<Rightarrow> max max_page page_num
                 | None \<Rightarrow> max_page)
            | None \<Rightarrow> max_page)
      else max_page)"

definition max_page_of :: "world \<Rightarrow> soup \<Rightarrow> nat" where
  "max_page_of w sp = foldl (update_max_page w) 1 (anchor_hrefs sp)"

definition get_total_pages :: "world \<Rightarrow> string \<Rightarrow> state \<Rightarrow> nat \<times> state" where
  "get_total_pages w pokemon_name s =
     (let rq = search_request pokemon_name 1; s1 = http_get rq s
      in case fetch_page w (clock s) rq of
           None \<Rightarrow> (0, emit (Print Msg_pagination_error) s1)
         | Some sp \<Rightarrow> (max_page_of w sp, s1))"

section \<open>download_pokemon_cards\<close>

text \<open>\<open>os.path.join(a, b)\<close> on POSIX\<close>

definition path_join :: "string \<Rightarrow> string \<Rightarrow> string" where
  "path_join a b =
     (if startswith ''/'' b then b
      else if a = [] \<or> last a = CHR ''/'' then a @ b
      else a @ ''/'' @ b)"

text \<open>
  \<open>os.path.exists(os.path.join(output_dir, filename))\<close> at line 150, for a file name
  without a slash. Line 128 has created the output directory (which is taken to
  succeed), so the empty name, \<open>.\<close> and \<open>..\<close> name directories that exist, unless the
  path is empty; the keys of the map of files are the other paths that exist.
\<close>

definition path_exists :: "(string \<rightharpoonup> string) \<Rightarrow> string \<Rightarrow> string \<Rightarrow> bool" where
  "path_exists fs output_dir filename =
     (path_join output_dir filename \<in> dom fs
      \<or> (path_join output_dir filename \<noteq> []
          \<and> (filename = [] \<or> filename = ''.'' \<or> filename = ''..'')))"

text \<open>
  Lines 147 to 161, inside the \<open>try\<close>: an exception of \<open>download_image\<close> is caught by the
  handler of line 160.
\<close>

definition fetch_card ::
  "world \<Rightarrow> string \<Rightarrow> nat \<Rightarrow> string option \<Rightarrow> state \<Rightarrow> nat \<times> state" where
  "fetch_card w output_dir downloaded image_url s =
     (case image_url of
        None \<Rightarrow> (downloaded, emit (Print Msg_no_image) s)
      | Some u \<Rightarrow>
          if u = [] then (downloaded, emit (Print Msg_no_image) s)
          else
            (let filename = split_last (CHR ''/'') u;
                 output_path = path_join output_dir filename
             in if path_exists (files s) output_dir filename
                then (downloaded, emit (Print (Msg_already filename)) s)
                else
                  (case download_image w u output_path s of
                     (Inr True, s') \<Rightarrow> (downloaded + 1, emit (Print (Msg_downloaded filename)) s')
                   | (Inr False, s') \<Rightarrow> (downloaded, emit (Print (Msg_failed filename)) s')
                   | (Inl e, s') \<Rightarrow> (downloaded, emit (Print Msg_error) s'))))"

text \<open>Lines 144 to 163: one turn of the loop over the cards; line 163 is inside the loop\<close>

definition process_card ::
  "world \<Rightarrow> string \<Rightarrow> string \<Rightarrow> nat \<Rightarrow> nat \<Rightarrow> string \<Rightarrow> nat \<times> state \<Rightarrow> nat \<times> state" where
  "process_card w pokemon_name output_dir n idx card_url acc =
     (case acc of
        (downloaded, s) \<Rightarrow>
          (let s1 = emit (Print (Msg_processing idx n card_url)) s
           in case get_card_image_url w card_url (Some pokemon_name) s1 of
                (image_url, s2) \<Rightarrow>
                  (case fetch_card w output_dir downloaded image_url s2 of
                     (downloaded', s3) \<Rightarrow>
                       (downloaded',
                        emit (Print (Msg_complete downloaded' output_dir)) (emit (Sleep 500) s3)))))"

fun card_loop ::
  "world \<Rightarrow> string \<Rightarrow> string \<Rightarrow> nat \<Rightarrow> nat \<Rightarrow> string list \<Rightarrow> nat \<times> state \<Rightarrow> nat \<times> state" where
  "card_loop w pokemon_name output_dir n idx [] acc = acc"
| "card_loop w pokemon_name output_dir n idx (card_url # rest) acc =
     card_loop w pokemon_name output_dir n (Suc idx) rest
       (process_card w pokemon_name output_dir n idx card_url acc)"

text \<open>Lines 136 to 140\<close>

fun page_loop ::
  "world \<Rightarrow> string \<Rightarrow> nat \<Rightarrow> nat list \<Rightarrow> string set \<times> state \<Rightarrow> string set \<times> state" where
  "page_loop w pokemon_name total_pages [] acc = acc"
| "page_loop w pokemon_name total_pages (page # rest) acc =
     (case acc of
        (all_card_urls, s) \<Rightarrow>
          (case search_pokemon_cards w pokemon_name page
                  (emit (Print (Msg_scraping page total_pages)) s) of
             (card_urls, s') \<Rightarrow>
               page_loop w pokemon_name total_pages rest
                 (all_card_urls \<union> set card_urls, emit (Sleep 1000) s')))"

text \<open>
  Lines 128 to 163. The result is \<open>None\<close> when the function returns at line 133, and
  otherwise the value of \<open>downloaded\<close> after the loop over the cards.
\<close>

definition scrape :: "world \<Rightarrow> string \<Rightarrow> string \<Rightarrow> state \<Rightarrow> nat option \<times> state" where
  "scrape w pokemon_name output_dir s =
     (case get_total_pages w pokemon_name
             (emit (Print (Msg_searching pokemon_name)) (emit (Mkdir output_dir) s)) of
        (total_pages, s1) \<Rightarrow>
          if total_pages = 0 then (None, emit (Print (Msg_no_results pokemon_name)) s1)
          else
            (case page_loop w pokemon_name total_pages [1 ..< total_pages + 1]
                    ({}, emit (Print (Msg_found_pages total_pages)) s1) of
               (all_card_urls, s2) \<Rightarrow>
                 (case card_loop w pokemon_name output_dir (card all_card_urls) 1
                         (sorted_list_of_set all_card_urls)
                         (0, emit (Print (Msg_found_unique (card all_card_urls))) s2) of
                    (downloaded, s3) \<Rightarrow> (Some downloaded, s3))))"

text \<open>
  How the process was started: \<open>sys.argv\<close>, and whether \<open>__name__ == "__main__"\<close> holds
  (the module is run as a script, not imported).
\<close>

record invocation =
  sys_argv :: "string list"
  name_is_main :: bool

datatype outcome = Returned | Raised exn | Exited nat

text \<open>
  Lines 124 to 190. \<open>main\<close> and \<open>is_valid_input\<close> are defined inside
  \<open>download_pokemon_cards\<close>, and line 189 runs \<open>main\<close> at the end of every call that
  gets there. \<open>main\<close> calls \<open>download_pokemon_cards\<close> again, so the recursion need not
  end: the functions take fuel, one unit for each call of \<open>download_pokemon_cards\<close> and
  each turn of the loop of \<open>main\<close>, and \<open>None\<close> says that the fuel ran out. \<open>input\<close>
  raises \<open>EOFError\<close> when standard input is at its end. The interpreter refuses the
  call of line 177 or line 187 when \<open>recursion_limit\<close> calls are active already: the
  call raises \<open>RecursionError\<close>, and no handler of the program is around these lines.
\<close>

fun download_pokemon_cards ::
      "world \<Rightarrow> invocation \<Rightarrow> nat \<Rightarrow> string \<Rightarrow> string \<Rightarrow> state \<Rightarrow> (outcome \<times> state) option"
  and main :: "world \<Rightarrow> invocation \<Rightarrow> nat \<Rightarrow> state \<Rightarrow> (outcome \<times> state) option"
  and main_loop :: "world \<Rightarrow> invocation \<Rightarrow> nat \<Rightarrow> state \<Rightarrow> (outcome \<times> state) option" where
  "download_pokemon_cards w iv 0 pokemon_name output_dir s = None"
| "download_pokemon_cards w iv (Suc fuel) pokemon_name output_dir s =
     (case scrape w pokemon_name output_dir s of
        (None, s') \<Rightarrow> Some (Returned, s')
      | (Some downloaded, s') \<Rightarrow>
          if name_is_main iv then main w iv fuel s' else Some (Returned, s'))"
| "main w iv fuel s =
     (if length (sys_argv iv) > 1
      then (let pokemon_name = strip (sys_argv iv ! 1)
            in if \<not> is_valid_input pokemon_name
               then main_loop w iv fuel (emit (Print Msg_invalid) s)
               else if recursion_limit w \<le> Suc (depth s) then Some (Raised RecursionError, s)
               else (case download_pokemon_cards w iv fuel pokemon_name ''./cards''
                            (s\<lparr>depth := Suc (depth s)\<rparr>) of
                       None \<Rightarrow> None
                     | Some (Returned, s') \<Rightarrow> main_loop w iv fuel (s'\<lparr>depth := depth s\<rparr>)
                     | Some (out, s') \<Rightarrow> Some (out, s')))
      else main_loop w iv fuel s)"
| "main_loop w iv 0 s = None"
| "main_loop w iv (Suc fuel) s =
     (case stdin s of
        [] \<Rightarrow> Some (Raised EOFError, emit (Input Prompt_next) s)
      | line # rest \<Rightarrow>
          (let user_input = strip line;
               s1 = emit (Input Prompt_next) (s\<lparr>stdin := rest\<rparr>)
           in if user_input = [] then Some (Returned, emit (Print Msg_exiting) s1)
              else if \<not> is_valid_input user_input
              then main_loop w iv fuel (emit (Print Msg_invalid) s1)
              else if recursion_limit w \<le> Suc (depth s) then Some (Raised RecursionError, s1)
              else (case download_pokemon_cards w iv fuel user_input ''./cards''
                           (s1\<lparr>depth := Suc (depth s)\<rparr>) of
                      None \<Rightarrow> None
                    | Some (Returned, s') \<Rightarrow> main_loop w iv fuel (s'\<lparr>depth := depth s\<rparr>)
                    | Some (out, s') \<Rightarrow> Some (out, s'))))"

text \<open>Lines 191 to 199: the module run as a script\<close>

definition script :: "world \<Rightarrow> string list \<Rightarrow> nat \<Rightarrow> state \<Rightarrow> (outcome \<times> state) option" where
  "script w argv fuel s =
     (let iv = \<lparr>sys_argv = argv, name_is_main = True\<rparr>
      in if length argv < 2
         then (case stdin s of
                 [] \<Rightarrow> Some (Raised EOFError, emit (Input Prompt_first) s)
               | line # rest \<Rightarrow>
                   (let pokemon_name = strip line;
                        s1 = emit (Input Prompt_first) (s\<lparr>stdin := rest\<rparr>)
                    in if pokemon_name = [] then Some (Exited 1, emit (Print Msg_no_name) s1)
                       else download_pokemon_cards w iv fuel pokemon_name ''./cards'' s1))
         else download_pokemon_cards w iv fuel (argv ! 1) ''./cards'' s)"

section \<open>Reading a trace\<close>

definition requests_of :: "event list \<Rightarrow> request list" where
  "requests_of es = List.map_filter (\<lambda>e. case e of Http_get rq \<Rightarrow> Some rq | _ \<Rightarrow> None) es"

definition writes_of :: "event list \<Rightarrow> string list" where
  "writes_of es = List.map_filter (\<lambda>e. case e of Write_file p \<Rightarrow> Some p | _ \<Rightarrow> None) es"

text \<open>The counts that the reports \<open>Complete! Downloaded ... new images\<close> of a trace give\<close>

definition reports_of :: "event list \<Rightarrow> nat list" where
  "reports_of es =
     List.map_filter (\<lambda>e. case e of Print (Msg_complete d od) \<Rightarrow> Some d | _ \<Rightarrow> None) es"

text \<open>
  The progress messages of a trace: the names searched for (\<open>Searching for ...\<close>), the
  pages scraped (\<open>Scraping page ...\<close>), the numbers of unique cards announced
  (\<open>Found ... unique cards\<close>), the cards processed (\<open>Processing card ...\<close>), and the
  number of times the loop of \<open>main\<close> was left (\<open>Exiting...\<close>).
\<close>

definition searching_ev :: "event \<Rightarrow> string option" where
  "searching_ev e = (case e of Print (Msg_searching nm) \<Rightarrow> Some nm | _ \<Rightarrow> None)"

definition scraping_ev :: "event \<Rightarrow> nat option" where
  "scraping_ev e = (case e of Print (Msg_scraping page n) \<Rightarrow> Some page | _ \<Rightarrow> None)"

definition unique_ev :: "event \<Rightarrow> nat option" where
  "unique_ev e = (case e of Print (Msg_found_unique n) \<Rightarrow> Some n | _ \<Rightarrow> None)"

definition processing_ev :: "event \<Rightarrow> string option" where
  "processing_ev e = (case e of Print (Msg_processing i n c) \<Rightarrow> Some c | _ \<Rightarrow> None)"

definition exiting_ev :: "event \<Rightarrow> unit option" where
  "exiting_ev e = (case e of Print Msg_exiting \<Rightarrow> Some () | _ \<Rightarrow> None)"

definition input_ev :: "event \<Rightarrow> prompt option" where
  "input_ev e = (case e of Input q \<Rightarrow> Some q | _ \<Rightarrow> None)"

definition searched_of :: "event list \<Rightarrow> string list" where
  "searched_of es = List.map_filter searching_ev es"

definition scraped_of :: "event list \<Rightarrow> nat list" where
  "scraped_of es = List.map_filter scraping_ev es"

definition found_unique_of :: "event list \<Rightarrow> nat list" where
  "found_unique_of es = List.map_filter unique_ev es"

definition processed_of :: "event list \<Rightarrow> string list" where
  "processed_of es = List.map_filter processing_ev es"

definition exits_of :: "event list \<Rightarrow> nat" where
  "exits_of es = length (List.map_filter exiting_ev es)"

text \<open>The prompts of a trace, one for each call of \<open>input\<close>\<close>

definition prompts_of :: "event list \<Rightarrow> prompt list" where
  "prompts_of es = List.map_filter input_ev es"

text \<open>
  The events of the work on one page or one card: requests, pauses, file writes, and
  the messages about their outcome. A reader of the progress messages is blind to
  them.
\<close>

definition inner_msg :: "message \<Rightarrow> bool" where
  "inner_msg m =
     (case m of
        Msg_search_error \<Rightarrow> True
      | Msg_card_page_error \<Rightarrow> True
      | Msg_image_error \<Rightarrow> True
      | Msg_pagination_error \<Rightarrow> True
      | Msg_already f \<Rightarrow> True
      | Msg_downloaded f \<Rightarrow> True
      | Msg_failed f \<Rightarrow> True
      | Msg_no_image \<Rightarrow> True
      | Msg_error \<Rightarrow> True
      | Msg_complete d od \<Rightarrow> True
      | _ \<Rightarrow> False)"

definition inner :: "event \<Rightarrow> bool" where
  "inner e =
     (case e of
        Http_get rq \<Rightarrow> True
      | Print m \<Rightarrow> inner_msg m
      | Sleep n \<Rightarrow> True
      | Write_file p \<Rightarrow> True
      | _ \<Rightarrow> False)"

definition blind :: "(event \<Rightarrow> 'a option) \<Rightarrow> bool" where
  "blind f = (\<forall>e. inner e \<longrightarrow> f e = None)"

text \<open>
  The set of card URLs that a run collects from the result pages (the value of
  \<open>all_card_urls\<close> after the loop of lines 136 to 140).
\<close>

definition collected :: "world \<Rightarrow> string \<Rightarrow> string \<Rightarrow> state \<Rightarrow> string set" where
  "collected w pokemon_name output_dir s =
     (case get_total_pages w pokemon_name
             (emit (Print (Msg_searching pokemon_name)) (emit (Mkdir output_dir) s)) of
        (total_pages, s1) \<Rightarrow>
          fst (page_loop w pokemon_name total_pages [1 ..< total_pages + 1]
                 ({}, emit (Print (Msg_found_pages total_pages)) s1)))"

text \<open>The number of blank lines among the lines of standard input\<close>

definition blank_lines :: "string list \<Rightarrow> nat" where
  "blank_lines ls = length (filter (\<lambda>l. strip l = []) ls)"

text \<open>
  The number of calls of \<open>download_pokemon_cards\<close> in a trace that got to their loop
  over the cards: each prints \<open>Found ... unique cards\<close> once.
\<close>

definition levels_of :: "event list \<Rightarrow> nat" where
  "levels_of es = length (found_unique_of es)"

text \<open>
  A remote state that stays the same: the site answers a request the same way at all
  times. On such a site \<open>image_of w c\<close> is the image URL extracted for the card \<open>c\<close>.
\<close>

definition static :: "world \<Rightarrow> bool" where
  "static w = (\<forall>t. fetch_page w t = fetch_page w 0 \<and> fetch_stream w t = fetch_stream w 0)"

definition image_of :: "world \<Rightarrow> string \<Rightarrow> string option" where
  "image_of w card_url =
     (case fetch_page w 0 (card_request card_url) of
        None \<Rightarrow> None
      | Some sp \<Rightarrow> image_url_of sp)"

text \<open>
  Nothing is left to download for an image URL: there is none, or its file is there, or
  the site refuses the request for it, or its path cannot be opened.
\<close>

definition nothing_to_fetch :: "world \<Rightarrow> string \<Rightarrow> (string \<rightharpoonup> string) \<Rightarrow> string option \<Rightarrow> bool" where
  "nothing_to_fetch w output_dir fs image_url =
     (case image_url of
        None \<Rightarrow> True
      | Some u \<Rightarrow>
          u = [] \<or> path_exists fs output_dir (split_last (CHR ''/'') u)
          \<or> fetch_stream w 0 (image_request u) = None
          \<or> path_join output_dir (split_last (CHR ''/'') u) = [])"


section \<open>The properties the specification names\<close>

text \<open>
  The detail-link shape of the specification: the site's address followed by a path
  that matches the pattern and has no fragment identifier.
\<close>

definition is_detail_url :: "string \<Rightarrow> bool" where
  "is_detail_url u =
     (case strip_prefix ''https://www.pokellector.com'' u of
        None \<Rightarrow> False
      | Some path \<Rightarrow> card_href_match path \<and> CHR ''#'' \<notin> set path)"

text \<open>
  The page numbers observed on a page: for each link that carries a page-number query
  parameter, the number that the digits of its leftmost one spell. The readable ones
  are those that \<open>int\<close> accepts under the interpreter's limit on the number of digits.
\<close>

definition page_params :: "soup \<Rightarrow> string list" where
  "page_params sp = List.map_filter search_page_param (anchor_hrefs sp)"

definition page_numbers :: "soup \<Rightarrow> nat list" where
  "page_numbers sp = map int_of_digits (page_params sp)"

definition readable_page_numbers :: "nat \<Rightarrow> soup \<Rightarrow> nat list" where
  "readable_page_numbers max_str_digits sp =
     List.map_filter (py_int max_str_digits) (page_params sp)"

text \<open>
  The URLs of a page that the specification's second testable property of the
  extractor speaks of: the sources of its images, and the contents of its \<open>og:image\<close>
  and \<open>itemprop=image\<close> meta tags.
\<close>

definition meta_image_contents :: "soup \<Rightarrow> string list" where
  "meta_image_contents sp =
     List.map_filter (\<lambda>t. get t ''content'')
       (filter (\<lambda>t. tag_name t = ''meta'' \<and>
                  (get t ''property'' = Some ''og:image'' \<or> get t ''itemprop'' = Some ''image''))
          (all_tags sp))"

text \<open>
  The images that pass the check of the extractor's first tier and stand in some
  container of class \<open>card\<close>.
\<close>

definition card_container_images :: "soup \<Rightarrow> string list" where
  "card_container_images sp =
     filter (\<lambda>src. src \<noteq> [] \<and> contains image_host src \<and> image_ext_ok src)
       (concat (map (\<lambda>d. map (\<lambda>t. get_default t ''src'' []) (filter is_img (descendants d)))
                  (filter is_card_div (all_tags sp))))"

section \<open>Concrete inputs\<close>

definition fresh :: state where
  "fresh = \<lparr>clock = 0, files = Map.empty, stdin = [], trace = [], depth = 0\<rparr>"

definition anchor :: "string \<Rightarrow> tag" where
  "anchor href = Tag ''a'' [] [(''href'', href)] []"

definition image :: "string \<Rightarrow> tag" where
  "image src = Tag ''img'' [] [(''src'', src)] []"

definition card_page :: "string \<Rightarrow> soup" where
  "card_page src = [Tag ''html'' [] [] [Tag ''div'' [''card''] [] [image src]]]"

text \<open>
  A site that answers no request. Here and below the interpreter has its default
  limits.
\<close>

definition offline :: world where
  "offline = \<lparr>fetch_page = (\<lambda>t rq. None), fetch_stream = (\<lambda>t rq. None),
     int_max_str_digits = 4300, recursion_limit = 493\<rparr>"

text \<open>A site that answers every page request with the same page\<close>

definition serving :: "soup \<Rightarrow> world" where
  "serving sp = \<lparr>fetch_page = (\<lambda>t rq. Some sp), fetch_stream = (\<lambda>t rq. None),
     int_max_str_digits = 4300, recursion_limit = 493\<rparr>"

text \<open>
  A search page with one link whose first path segment holds a \<open>#\<close>: the browser reads
  it as the path \<open>/a\<close> with the fragment \<open>b-Expansion/c-Card-d\<close>.
\<close>

definition fragment_page :: soup where
  "fragment_page = [anchor ''/a#b-Expansion/c-Card-d'']"

text \<open>Search pages with pagination links\<close>

definition paged_3_7 :: soup where
  "paged_3_7 = [anchor ''/search?criteria=pikachu&p=3'', anchor ''/search?criteria=pikachu&p=7'']"

definition paged_0 :: soup where
  "paged_0 = [anchor ''/search?p=0'']"

text \<open>A search page whose only pagination link carries a page number of 4301 digits\<close>

definition paged_long :: soup where
  "paged_long = [anchor (''/search?criteria=pikachu&p='' @ replicate 4301 (CHR ''9''))]"

text \<open>
  A site with two cards for one page of results; each card page shows its image in the
  card container, and both images download.
\<close>

definition two_cards :: world where
  "two_cards =
     \<lparr>fetch_page = (\<lambda>t rq.
        if req_url rq = ''https://www.pokellector.com/search''
        then Some [anchor ''/Base-Expansion/Pikachu-Card-58'', anchor ''/Jungle-Expansion/Pikachu-Card-60'']
        else if req_url rq = ''https://www.pokellector.com/Base-Expansion/Pikachu-Card-58''
        then Some (card_page ''https://den-cards.pokellector.com/1/Pikachu.BS.58.png'')
        else if req_url rq = ''https://www.pokellector.com/Jungle-Expansion/Pikachu-Card-60''
        then Some (card_page ''https://den-cards.pokellector.com/2/Pikachu.JU.60.png'')
        else None),
      fetch_stream = (\<lambda>t rq. Some ([''PNG''], True)),
      int_max_str_digits = 4300, recursion_limit = 493\<rparr>"

text \<open>
  A detail page with an \<open>og:image\<close> meta tag and the card image in a container of
  class \<open>card\<close>.
\<close>

definition og_meta :: "string \<Rightarrow> tag" where
  "og_meta content = Tag ''meta'' [] [(''property'', ''og:image''), (''content'', content)] []"

definition detail_page :: soup where
  "detail_page =
     [Tag ''html'' [] []
        [Tag ''head'' [] [] [og_meta ''https://den-cards.pokellector.com/og/Pikachu-social.jpg''],
         Tag ''body'' [] []
           [Tag ''div'' [''card''] [] [image ''https://den-cards.pokellector.com/1/Pikachu.BS.58.png'']]]]"

text \<open>
  The same page with one more container of class \<open>card\<close>, without an image, before the
  one that holds the card image.
\<close>

definition two_containers :: soup where
  "two_containers =
     [Tag ''html'' [] []
        [Tag ''head'' [] [] [og_meta ''https://den-cards.pokellector.com/og/Pikachu-social.jpg''],
         Tag ''body'' [] []
           [Tag ''div'' [''card'', ''banner''] [] [],
            Tag ''div'' [''card''] [] [image ''https://den-cards.pokellector.com/1/Pikachu.BS.58.png'']]]]"

text \<open>
  Detail pages without a container of class \<open>card\<close>: one with an \<open>itemprop=image\<close>
  tag, then an \<open>og:image\<close> tag, and an image, all on the image host; one whose
  \<open>og:image\<close> tag points elsewhere, with an \<open>itemprop=image\<close> tag and an image on the
  image host; and one with images only.
\<close>

definition itemprop_meta :: "string \<Rightarrow> tag" where
  "itemprop_meta content = Tag ''meta'' [] [(''itemprop'', ''image''), (''content'', content)] []"

definition og_page :: soup where
  "og_page =
     [Tag ''html'' [] []
        [Tag ''head'' [] []
           [itemprop_meta ''https://den-cards.pokellector.com/og/Pikachu-item.jpg'',
            og_meta ''https://den-cards.pokellector.com/og/Pikachu-social.jpg''],
         Tag ''body'' [] [] [image ''https://den-cards.pokellector.com/3/Raichu.FO.14.png'']]]"

definition itemprop_page :: soup where
  "itemprop_page =
     [Tag ''html'' [] []
        [Tag ''head'' [] []
           [og_meta ''https://cdn.example.org/social.jpg'',
            itemprop_meta ''https://den-cards.pokellector.com/og/Pikachu-item.jpg''],
         Tag ''body'' [] [] [image ''https://den-cards.pokellector.com/3/Raichu.FO.14.png'']]]"

definition loose_page :: soup where
  "loose_page =
     [Tag ''html'' [] []
        [Tag ''body'' [] []
           [image ''https://cdn.example.org/banner.png'',
            image ''https://den-cards.pokellector.com/logo.svg'',
            image ''https://den-cards.pokellector.com/3/Raichu.FO.14.png'',
            image ''https://den-cards.pokellector.com/4/Pichu.NG.12.png'']]]"

text \<open>A detail page whose images and meta tags all point to other hosts\<close>

definition foreign_page :: soup where
  "foreign_page =
     [Tag ''html'' [] []
        [Tag ''head'' [] [] [og_meta ''https://cdn.example.org/social.jpg''],
         Tag ''body'' [] []
           [Tag ''div'' [''card''] [] [image ''https://cdn.example.org/Pikachu.png'']]]]"



text \<open>The module imported by another program\<close>

definition imported :: invocation where
  "imported = \<lparr>sys_argv = [''client.py''], name_is_main = False\<rparr>"

text \<open>
  A site that answers the first two requests (the pagination check and the search of
  page 1) with a result page of two cards and a link to page 2, fails the next two
  requests (the search of page 2 and the page of the first card), then answers the
  page of the second card, and breaks every image download in the middle of the
  stream.
\<close>

definition flaky :: world where
  "flaky =
     \<lparr>fetch_page = (\<lambda>t rq.
        if t = 2 \<or> t = 3 then None
        else if req_url rq = ''https://www.pokellector.com/search''
        then Some [anchor ''/Base-Expansion/Pikachu-Card-58'', anchor ''/Jungle-Expansion/Pikachu-Card-60'',
                   anchor ''/search?criteria=pikachu&p=2'']
        else Some (card_page ''https://den-cards.pokellector.com/2/Pikachu.JU.60.png'')),
      fetch_stream = (\<lambda>t rq. Some ([''PN''], False)),
      int_max_str_digits = 4300, recursion_limit = 493\<rparr>"

section \<open>Facts about traces\<close>

lemma map_filter_append:
  "List.map_filter f (xs @ ys) = List.map_filter f xs @ List.map_filter f ys"
  by (simp add: List.map_filter_def)

lemma requests_of_simps:
  "requests_of [] = []"
  "requests_of (es @ es') = requests_of es @ requests_of es'"
  "requests_of (Http_get rq # es) = rq # requests_of es"
  "requests_of (Print m # es) = requests_of es"
  "requests_of (Sleep n # es) = requests_of es"
  "requests_of (Mkdir d # es) = requests_of es"
  "requests_of (Write_file p # es) = requests_of es"
  "requests_of (Input q # es) = requests_of es"
  by (simp_all add: requests_of_def map_filter_append)

section \<open>Facts about the parsed markup\<close>

lemma find_SomeD: "List.find P xs = Some x \<Longrightarrow> P x \<and> x \<in> set xs"
  by (induction xs) (auto split: if_splits)

lemma set_map_filter: "set (List.map_filter f xs) = {y. \<exists>x \<in> set xs. f x = Some y}"
  by (induction xs) (auto split: option.splits)

lemma descendants_trans:
  "t \<in> set (descendants d) \<Longrightarrow> u \<in> set (descendants t) \<Longrightarrow> u \<in> set (descendants d)"
proof (induction d arbitrary: t u)
  case (Tag n cl a cs)
  from Tag.prems(1) obtain c where c: "c \<in> set cs" "t = c \<or> t \<in> set (descendants c)"
    by auto
  from c(2) have "u \<in> set (descendants c)"
  proof
    assume "t = c" with Tag.prems(2) show ?thesis by simp
  next
    assume "t \<in> set (descendants c)"
    with Tag.IH [OF c(1)] Tag.prems(2) show ?thesis by blast
  qed
  with c(1) show ?case by auto
qed

lemma all_tags_closed:
  assumes "d \<in> set (all_tags sp)" and "u \<in> set (descendants d)"
  shows "u \<in> set (all_tags sp)"
proof -
  from assms(1) obtain c where c: "c \<in> set sp" "d = c \<or> d \<in> set (descendants c)"
    by (auto simp: all_tags_def)
  from c(2) assms(2) have "u \<in> set (descendants c)"
    using descendants_trans by blast
  with c(1) show ?thesis by (auto simp: all_tags_def)
qed

lemma contains_host_nonempty: "contains image_host src \<Longrightarrow> src \<noteq> []"
  by (auto simp: image_host_def)


section \<open>Progress messages are not affected by the work on a page or a card\<close>

lemma state_emit [simp]:
  "trace (emit e s) = trace s @ [e]" "clock (emit e s) = clock s"
  "files (emit e s) = files s" "stdin (emit e s) = stdin s" "depth (emit e s) = depth s"
  by (simp_all add: emit_def)

lemma state_http_get [simp]:
  "trace (http_get rq s) = trace s @ [Http_get rq]" "clock (http_get rq s) = Suc (clock s)"
  "files (http_get rq s) = files s" "stdin (http_get rq s) = stdin s"
  "depth (http_get rq s) = depth s"
  by (simp_all add: http_get_def)

lemma blind_inner: "blind f \<Longrightarrow> inner e \<Longrightarrow> f e = None"
  by (simp add: blind_def)

lemma inner_simps [simp]:
  "inner (Http_get rq)" "inner (Sleep n)" "inner (Write_file p)"
  "inner (Print Msg_search_error)" "inner (Print Msg_card_page_error)"
  "inner (Print Msg_image_error)" "inner (Print Msg_pagination_error)"
  "inner (Print (Msg_already fn))" "inner (Print (Msg_downloaded fn))"
  "inner (Print (Msg_failed fn))" "inner (Print Msg_no_image)" "inner (Print Msg_error)"
  "inner (Print (Msg_complete d od))"
  by (simp_all add: inner_def inner_msg_def)

lemma blind_simps:
  assumes "blind f"
  shows "f (Http_get rq) = None" "f (Sleep n) = None" "f (Write_file p) = None"
    "f (Print Msg_search_error) = None" "f (Print Msg_card_page_error) = None"
    "f (Print Msg_image_error) = None" "f (Print Msg_pagination_error) = None"
    "f (Print (Msg_already fn)) = None" "f (Print (Msg_downloaded fn)) = None"
    "f (Print (Msg_failed fn)) = None" "f (Print Msg_no_image) = None"
    "f (Print Msg_error) = None" "f (Print (Msg_complete d od)) = None"
  using assms by (simp_all add: blind_inner)

lemma mf_search:
  "blind f \<Longrightarrow> List.map_filter f (trace (snd (search_pokemon_cards w nm p s)))
     = List.map_filter f (trace s)"
  by (simp add: search_pokemon_cards_def Let_def blind_simps map_filter_append split: option.splits)

lemma mf_total_pages:
  "blind f \<Longrightarrow> List.map_filter f (trace (snd (get_total_pages w nm s)))
     = List.map_filter f (trace s)"
  by (simp add: get_total_pages_def Let_def blind_simps map_filter_append split: option.splits)

lemma mf_card_image_url:
  "blind f \<Longrightarrow> List.map_filter f (trace (snd (get_card_image_url w c nm s)))
     = List.map_filter f (trace s)"
  by (simp add: get_card_image_url_def Let_def blind_simps map_filter_append split: option.splits)

lemma mf_download_image:
  "blind f \<Longrightarrow> List.map_filter f (trace (snd (download_image w u p s)))
     = List.map_filter f (trace s)"
  by (simp add: download_image_def Let_def blind_simps map_filter_append split: option.splits prod.splits)

lemma mf_fetch_card:
  assumes "blind f"
  shows "List.map_filter f (trace (snd (fetch_card w od d iu s))) = List.map_filter f (trace s)"
proof (cases iu)
  case None
  with assms show ?thesis by (simp add: fetch_card_def blind_simps map_filter_append)
next
  case (Some u)
  let ?p = "path_join od (split_last (CHR ''/'') u)"
  obtain r s' where dl: "download_image w u ?p s = (r, s')" by (cases "download_image w u ?p s")
  from mf_download_image [OF assms, of w u ?p s] dl
  have "List.map_filter f (trace s') = List.map_filter f (trace s)" by simp
  with assms Some dl show ?thesis
    by (simp add: fetch_card_def Let_def blind_simps map_filter_append split: sum.splits bool.splits)
qed

lemma mf_process_card:
  assumes "blind f"
  shows "List.map_filter f (trace (snd (process_card w nm od n idx c acc)))
     = List.map_filter f (trace (snd acc)) @ List.map_filter f [Print (Msg_processing idx n c)]"
proof -
  obtain d s where acc: "acc = (d, s)" by (cases acc)
  let ?s1 = "emit (Print (Msg_processing idx n c)) s"
  obtain iu s2 where g: "get_card_image_url w c (Some nm) ?s1 = (iu, s2)"
    by (cases "get_card_image_url w c (Some nm) ?s1")
  obtain d' s3 where fc: "fetch_card w od d iu s2 = (d', s3)"
    by (cases "fetch_card w od d iu s2")
  from mf_card_image_url [OF assms, of w c "Some nm" ?s1] g
  have "List.map_filter f (trace s2) = List.map_filter f (trace ?s1)" by simp
  moreover from mf_fetch_card [OF assms, of w od d iu s2] fc
  have "List.map_filter f (trace s3) = List.map_filter f (trace s2)" by simp
  ultimately show ?thesis using assms acc g fc
    by (simp add: process_card_def blind_simps map_filter_append)
qed

lemma mf_card_loop:
  assumes "blind f"
  shows "List.map_filter f (trace (snd (card_loop w nm od n idx cs acc)))
     = List.map_filter f (trace (snd acc))
       @ List.map_filter f (map (\<lambda>(i, c). Print (Msg_processing i n c)) (zip [idx ..< idx + length cs] cs))"
proof (induction cs arbitrary: idx acc)
  case Nil
  show ?case by simp
next
  case (Cons c cs)
  have "[idx ..< idx + length (c # cs)] = idx # [Suc idx ..< Suc idx + length cs]"
    by (simp add: upt_rec)
  then show ?case
    by (simp add: Cons.IH mf_process_card [OF assms] map_filter_append del: upt_Suc
        split: option.splits)
qed

lemma mf_page_loop:
  assumes "blind f"
  shows "List.map_filter f (trace (snd (page_loop w nm tp ps acc)))
     = List.map_filter f (trace (snd acc))
       @ List.map_filter f (map (\<lambda>p. Print (Msg_scraping p tp)) ps)"
proof (induction ps arbitrary: acc)
  case Nil
  show ?case by simp
next
  case (Cons p ps)
  obtain U s where acc: "acc = (U, s)" by (cases acc)
  let ?s1 = "emit (Print (Msg_scraping p tp)) s"
  obtain urls s2 where sr: "search_pokemon_cards w nm p ?s1 = (urls, s2)"
    by (cases "search_pokemon_cards w nm p ?s1")
  from mf_search [OF assms, of w nm p ?s1] sr
  have "List.map_filter f (trace s2) = List.map_filter f (trace ?s1)" by simp
  with assms acc sr show ?case
    by (simp add: Cons.IH blind_simps map_filter_append split: option.splits)
qed

section \<open>The progress messages of one run\<close>

lemma blind_observers:
  "blind searching_ev" "blind scraping_ev" "blind unique_ev" "blind processing_ev" "blind exiting_ev"
  "blind input_ev"
  unfolding blind_def searching_ev_def scraping_ev_def unique_ev_def processing_ev_def exiting_ev_def
    input_ev_def inner_def inner_msg_def
  by (auto split: event.splits message.splits)

lemma total_pages_emit [simp]:
  "fst (get_total_pages w nm (emit e s)) = fst (get_total_pages w nm s)"
  by (simp add: get_total_pages_def Let_def split: option.splits)

lemma mf_scrape_none:
  assumes "blind f" and "fst (get_total_pages w nm s) = 0"
  shows "fst (scrape w nm od s) = None"
    and "List.map_filter f (trace (snd (scrape w nm od s)))
      = List.map_filter f (trace s)
        @ List.map_filter f [Mkdir od, Print (Msg_searching nm), Print (Msg_no_results nm)]"
proof -
  let ?s0 = "emit (Print (Msg_searching nm)) (emit (Mkdir od) s)"
  obtain tp s1 where g: "get_total_pages w nm ?s0 = (tp, s1)" by (cases "get_total_pages w nm ?s0")
  with assms(2) have tp: "tp = 0" using total_pages_emit by (metis fst_conv)
  from mf_total_pages [OF assms(1), of w nm ?s0] g
  have "List.map_filter f (trace s1) = List.map_filter f (trace ?s0)" by simp
  with g tp show "fst (scrape w nm od s) = None"
    and "List.map_filter f (trace (snd (scrape w nm od s)))
      = List.map_filter f (trace s)
        @ List.map_filter f [Mkdir od, Print (Msg_searching nm), Print (Msg_no_results nm)]"
    by (simp_all add: scrape_def map_filter_append split: option.splits)
qed

lemma mf_scrape_some:
  assumes "blind f" and "fst (get_total_pages w nm s) = tp" and "0 < tp"
  shows "\<exists>d. fst (scrape w nm od s) = Some d \<and>
      List.map_filter f (trace (snd (scrape w nm od s)))
      = List.map_filter f (trace s)
        @ List.map_filter f
            ([Mkdir od, Print (Msg_searching nm), Print (Msg_found_pages tp)]
             @ map (\<lambda>p. Print (Msg_scraping p tp)) [1 ..< tp + 1]
             @ [Print (Msg_found_unique (card (collected w nm od s)))]
             @ map (\<lambda>(i, c). Print (Msg_processing i (card (collected w nm od s)) c))
                 (zip [1 ..< 1 + length (sorted_list_of_set (collected w nm od s))]
                    (sorted_list_of_set (collected w nm od s))))"
proof -
  let ?s0 = "emit (Print (Msg_searching nm)) (emit (Mkdir od) s)"
  obtain tp' s1 where g: "get_total_pages w nm ?s0 = (tp', s1)" by (cases "get_total_pages w nm ?s0")
  with assms(2) have tp: "tp' = tp" using total_pages_emit by (metis fst_conv)
  let ?s1 = "emit (Print (Msg_found_pages tp)) s1"
  obtain U s2 where pl: "page_loop w nm tp [1 ..< tp + 1] ({}, ?s1) = (U, s2)"
    by (cases "page_loop w nm tp [1 ..< tp + 1] ({}, ?s1)")
  let ?s2 = "emit (Print (Msg_found_unique (card U))) s2"
  obtain d s3 where cl: "card_loop w nm od (card U) 1 (sorted_list_of_set U) (0, ?s2) = (d, s3)"
    by (cases "card_loop w nm od (card U) 1 (sorted_list_of_set U) (0, ?s2)")
  have t1: "List.map_filter f (trace s1) = List.map_filter f (trace ?s0)"
    using mf_total_pages [OF assms(1), of w nm ?s0] g by simp
  have t2: "List.map_filter f (trace s2) = List.map_filter f (trace ?s1)
      @ List.map_filter f (map (\<lambda>p. Print (Msg_scraping p tp)) [1 ..< tp + 1])"
    using mf_page_loop [OF assms(1), of w nm tp "[1 ..< tp + 1]" "({}, ?s1)"] pl by simp
  have t3: "List.map_filter f (trace s3) = List.map_filter f (trace ?s2)
      @ List.map_filter f (map (\<lambda>(i, c). Print (Msg_processing i (card U) c))
            (zip [1 ..< 1 + length (sorted_list_of_set U)] (sorted_list_of_set U)))"
    using mf_card_loop [OF assms(1), of w nm od "card U" 1 "sorted_list_of_set U" "(0, ?s2)"] cl
    by simp
  have res: "scrape w nm od s = (Some d, s3)"
    using g tp assms(3) pl cl by (simp add: scrape_def)
  have U: "collected w nm od s = U"
    using g tp pl by (simp add: collected_def)
  show ?thesis
    unfolding res fst_conv snd_conv t3 U
    by (simp add: t2 t1 map_filter_append del: upt_Suc split: option.splits)
qed

section \<open>What one run announces\<close>

lemma mf_map: "List.map_filter f (map g xs) = List.map_filter (\<lambda>x. f (g x)) xs"
  by (simp add: List.map_filter_def comp_def filter_map)

lemma mf_Some: "List.map_filter (\<lambda>x. Some (h x)) xs = map h xs"
  by (induction xs) simp_all

lemma mf_None: "List.map_filter (\<lambda>x. None) xs = []"
  by (induction xs) simp_all

lemma map_snd_zip_upt: "map snd (zip [i ..< i + length xs] xs) = xs"
  by simp

lemma observer_simps [simp]:
  "scraping_ev (Print (Msg_scraping p tp)) = Some p"
  "scraping_ev (Print (Msg_processing i n c)) = None"
  "scraping_ev (Print (Msg_found_unique n)) = None"
  "scraping_ev (Print (Msg_found_pages tp)) = None"
  "scraping_ev (Print (Msg_searching nm)) = None"
  "scraping_ev (Print (Msg_no_results nm)) = None"
  "scraping_ev (Mkdir od) = None"
  "processing_ev (Print (Msg_scraping p tp)) = None"
  "processing_ev (Print (Msg_processing i n c)) = Some c"
  "processing_ev (Print (Msg_found_unique n)) = None"
  "processing_ev (Print (Msg_found_pages tp)) = None"
  "processing_ev (Print (Msg_searching nm)) = None"
  "processing_ev (Print (Msg_no_results nm)) = None"
  "processing_ev (Mkdir od) = None"
  "unique_ev (Print (Msg_scraping p tp)) = None"
  "unique_ev (Print (Msg_processing i n c)) = None"
  "unique_ev (Print (Msg_found_unique n)) = Some n"
  "unique_ev (Print (Msg_found_pages tp)) = None"
  "unique_ev (Print (Msg_searching nm)) = None"
  "unique_ev (Print (Msg_no_results nm)) = None"
  "unique_ev (Mkdir od) = None"
  "exiting_ev (Print (Msg_scraping p tp)) = None"
  "exiting_ev (Print (Msg_processing i n c)) = None"
  "exiting_ev (Print (Msg_found_unique n)) = None"
  "exiting_ev (Print (Msg_found_pages tp)) = None"
  "exiting_ev (Print (Msg_searching nm)) = None"
  "exiting_ev (Print (Msg_no_results nm)) = None"
  "exiting_ev (Mkdir od) = None"
  "exiting_ev (Print Msg_exiting) = Some ()"
  "exiting_ev (Print Msg_invalid) = None"
  "exiting_ev (Input q) = None"
  "unique_ev (Print Msg_exiting) = None"
  "unique_ev (Print Msg_invalid) = None"
  "unique_ev (Input q) = None"
  "searching_ev (Print (Msg_scraping p tp)) = None"
  "searching_ev (Print (Msg_processing i n c)) = None"
  "searching_ev (Print (Msg_found_unique n)) = None"
  "searching_ev (Print (Msg_found_pages tp)) = None"
  "searching_ev (Print (Msg_searching nm)) = Some nm"
  "searching_ev (Print (Msg_no_results nm)) = None"
  "searching_ev (Mkdir od) = None"
  "searching_ev (Print Msg_exiting) = None"
  "searching_ev (Print Msg_invalid) = None"
  "searching_ev (Input q) = None"
  "input_ev (Print m) = None"
  "input_ev (Mkdir od) = None"
  "input_ev (Input q) = Some q"
  by (simp_all add: scraping_ev_def processing_ev_def unique_ev_def exiting_ev_def searching_ev_def
      input_ev_def)

lemma scrape_visits_all:
  assumes "fst (get_total_pages w nm s) = tp" and "0 < tp"
  shows "fst (scrape w nm od s) \<noteq> None"
    and "scraped_of (trace (snd (scrape w nm od s))) = scraped_of (trace s) @ [1 ..< tp + 1]"
    and "found_unique_of (trace (snd (scrape w nm od s)))
           = found_unique_of (trace s) @ [card (collected w nm od s)]"
    and "processed_of (trace (snd (scrape w nm od s)))
           = processed_of (trace s) @ sorted_list_of_set (collected w nm od s)"
    and "exits_of (trace (snd (scrape w nm od s))) = exits_of (trace s)"
proof -
  show "fst (scrape w nm od s) \<noteq> None"
    using mf_scrape_some [OF blind_observers(1) assms, of od] by auto
  show "scraped_of (trace (snd (scrape w nm od s))) = scraped_of (trace s) @ [1 ..< tp + 1]"
    using mf_scrape_some [OF blind_observers(2) assms, of od]
    by (auto simp: scraped_of_def map_filter_append mf_map mf_Some mf_None case_prod_beta
        simp del: upt_Suc)
  show "found_unique_of (trace (snd (scrape w nm od s)))
           = found_unique_of (trace s) @ [card (collected w nm od s)]"
    using mf_scrape_some [OF blind_observers(3) assms, of od]
    by (auto simp: found_unique_of_def map_filter_append mf_map mf_Some mf_None case_prod_beta
        simp del: upt_Suc)
  show "processed_of (trace (snd (scrape w nm od s)))
           = processed_of (trace s) @ sorted_list_of_set (collected w nm od s)"
    using mf_scrape_some [OF blind_observers(4) assms, of od]
      map_snd_zip_upt [of 1 "sorted_list_of_set (collected w nm od s)"]
    by (auto simp: processed_of_def map_filter_append mf_map mf_Some mf_None case_prod_beta
        simp del: upt_Suc)
  show "exits_of (trace (snd (scrape w nm od s))) = exits_of (trace s)"
    using mf_scrape_some [OF blind_observers(5) assms, of od]
    by (auto simp: exits_of_def map_filter_append mf_map mf_Some mf_None case_prod_beta
        simp del: upt_Suc)
qed

lemma scrape_no_results:
  assumes "fst (get_total_pages w nm s) = 0"
  shows "fst (scrape w nm od s) = None"
    and "scraped_of (trace (snd (scrape w nm od s))) = scraped_of (trace s)"
    and "found_unique_of (trace (snd (scrape w nm od s))) = found_unique_of (trace s)"
    and "processed_of (trace (snd (scrape w nm od s))) = processed_of (trace s)"
    and "exits_of (trace (snd (scrape w nm od s))) = exits_of (trace s)"
  using mf_scrape_none [OF blind_observers(2) assms, of od]
    mf_scrape_none [OF blind_observers(3) assms, of od]
    mf_scrape_none [OF blind_observers(4) assms, of od]
    mf_scrape_none [OF blind_observers(5) assms, of od]
  by (simp_all add: scraped_of_def found_unique_of_def processed_of_def exits_of_def)




section \<open>Standard input, and the calls of main\<close>

text \<open>The work on the pages and cards reads no input and starts no nested call\<close>

lemma stdin_search:
  "stdin (snd (search_pokemon_cards w nm p s)) = stdin s"
  "depth (snd (search_pokemon_cards w nm p s)) = depth s"
  by (simp_all add: search_pokemon_cards_def Let_def split: option.splits)

lemma stdin_total_pages:
  "stdin (snd (get_total_pages w nm s)) = stdin s"
  "depth (snd (get_total_pages w nm s)) = depth s"
  by (simp_all add: get_total_pages_def Let_def split: option.splits)

lemma stdin_card_image_url:
  "stdin (snd (get_card_image_url w c nm s)) = stdin s"
  "depth (snd (get_card_image_url w c nm s)) = depth s"
  by (simp_all add: get_card_image_url_def Let_def split: option.splits)

lemma stdin_download_image:
  "stdin (snd (download_image w u p s)) = stdin s"
  "depth (snd (download_image w u p s)) = depth s"
  by (simp_all add: download_image_def Let_def split: option.splits prod.splits)

lemma stdin_fetch_card:
  "stdin (snd (fetch_card w od d iu s)) = stdin s"
  "depth (snd (fetch_card w od d iu s)) = depth s"
proof -
  have "stdin (snd (fetch_card w od d iu s)) = stdin s \<and> depth (snd (fetch_card w od d iu s)) = depth s"
  proof (cases iu)
    case None
    then show ?thesis by (simp add: fetch_card_def)
  next
    case (Some u)
    let ?p = "path_join od (split_last (CHR ''/'') u)"
    obtain r s' where dl: "download_image w u ?p s = (r, s')" by (cases "download_image w u ?p s")
    with stdin_download_image [of w u ?p s] have "stdin s' = stdin s" "depth s' = depth s" by simp_all
    with Some dl show ?thesis
      by (simp add: fetch_card_def Let_def split: sum.splits bool.splits)
  qed
  then show "stdin (snd (fetch_card w od d iu s)) = stdin s"
    and "depth (snd (fetch_card w od d iu s)) = depth s" by simp_all
qed

lemma stdin_process_card:
  "stdin (snd (process_card w nm od n idx c acc)) = stdin (snd acc)"
  "depth (snd (process_card w nm od n idx c acc)) = depth (snd acc)"
proof -
  obtain d s where acc: "acc = (d, s)" by (cases acc)
  let ?s1 = "emit (Print (Msg_processing idx n c)) s"
  obtain iu s2 where g: "get_card_image_url w c (Some nm) ?s1 = (iu, s2)"
    by (cases "get_card_image_url w c (Some nm) ?s1")
  obtain d' s3 where fc: "fetch_card w od d iu s2 = (d', s3)"
    by (cases "fetch_card w od d iu s2")
  from stdin_card_image_url [of w c "Some nm" ?s1] g
  have "stdin s2 = stdin s" "depth s2 = depth s" by simp_all
  moreover from stdin_fetch_card [of w od d iu s2] fc
  have "stdin s3 = stdin s2" "depth s3 = depth s2" by simp_all
  ultimately show "stdin (snd (process_card w nm od n idx c acc)) = stdin (snd acc)"
    and "depth (snd (process_card w nm od n idx c acc)) = depth (snd acc)"
    using acc g fc by (simp_all add: process_card_def)
qed

lemma stdin_card_loop:
  "stdin (snd (card_loop w nm od n idx cs acc)) = stdin (snd acc)"
  "depth (snd (card_loop w nm od n idx cs acc)) = depth (snd acc)"
  by (induction cs arbitrary: idx acc) (simp_all add: stdin_process_card)

lemma stdin_page_loop:
  "stdin (snd (page_loop w nm tp ps acc)) = stdin (snd acc)
   \<and> depth (snd (page_loop w nm tp ps acc)) = depth (snd acc)"
proof (induction ps arbitrary: acc)
  case Nil
  show ?case by simp
next
  case (Cons p ps)
  obtain U s where acc: "acc = (U, s)" by (cases acc)
  let ?s1 = "emit (Print (Msg_scraping p tp)) s"
  obtain urls s2 where sr: "search_pokemon_cards w nm p ?s1 = (urls, s2)"
    by (cases "search_pokemon_cards w nm p ?s1")
  from stdin_search [of w nm p ?s1] sr have "stdin s2 = stdin s" "depth s2 = depth s" by simp_all
  with acc sr show ?case by (simp add: Cons.IH)
qed

lemma stdin_scrape:
  "stdin (snd (scrape w nm od s)) = stdin s"
  "depth (snd (scrape w nm od s)) = depth s"
proof -
  let ?s0 = "emit (Print (Msg_searching nm)) (emit (Mkdir od) s)"
  obtain tp s1 where g: "get_total_pages w nm ?s0 = (tp, s1)" by (cases "get_total_pages w nm ?s0")
  from stdin_total_pages [of w nm ?s0] g
  have s1: "stdin s1 = stdin s" "depth s1 = depth s" by simp_all
  let ?s1 = "emit (Print (Msg_found_pages tp)) s1"
  obtain U s2 where pl: "page_loop w nm tp [1 ..< tp + 1] ({}, ?s1) = (U, s2)"
    by (cases "page_loop w nm tp [1 ..< tp + 1] ({}, ?s1)")
  from stdin_page_loop [of w nm tp "[1 ..< tp + 1]" "({}, ?s1)"] pl
  have s2: "stdin s2 = stdin s1" "depth s2 = depth s1"
    by (simp_all del: upt_Suc)
  let ?s2 = "emit (Print (Msg_found_unique (card U))) s2"
  obtain d s3 where cl: "card_loop w nm od (card U) 1 (sorted_list_of_set U) (0, ?s2) = (d, s3)"
    by (cases "card_loop w nm od (card U) 1 (sorted_list_of_set U) (0, ?s2)")
  from stdin_card_loop [of w nm od "card U" 1 "sorted_list_of_set U" "(0, ?s2)"] cl
  have s3: "stdin s3 = stdin s2" "depth s3 = depth s2" by simp_all
  show "stdin (snd (scrape w nm od s)) = stdin s"
    and "depth (snd (scrape w nm od s)) = depth s"
    using g pl cl s1 s2 s3 by (simp_all add: scrape_def del: upt_Suc)
qed

text \<open>What the lines 128 to 163 add to the counts of levels and of exits\<close>

lemma scrape_counts:
  "exits_of (trace (snd (scrape w nm od s))) = exits_of (trace s)"
  "levels_of (trace (snd (scrape w nm od s)))
     = levels_of (trace s) + (if fst (scrape w nm od s) = None then 0 else 1)"
proof -
  show "exits_of (trace (snd (scrape w nm od s))) = exits_of (trace s)"
    using scrape_no_results(5) [of w nm s od] scrape_visits_all(5) [of w nm s _ od]
    by (cases "fst (get_total_pages w nm s) = 0") simp_all
  show "levels_of (trace (snd (scrape w nm od s)))
     = levels_of (trace s) + (if fst (scrape w nm od s) = None then 0 else 1)"
    using scrape_no_results(1,3) [of w nm s od] scrape_visits_all(1,3) [of w nm s _ od]
    by (cases "fst (get_total_pages w nm s) = 0") (simp_all add: levels_of_def)
qed

text \<open>
  What a call, a call of \<open>main\<close> and the loop of \<open>main\<close> keep: the blank lines left on
  standard input and the exits announced add up to the same number; no line is put
  back; the call returns or raises \<open>EOFError\<close> or \<open>RecursionError\<close>; the loop is left
  through \<open>Exiting...\<close>, and when it is, the nesting depth is what it was.
\<close>

lemma nesting:
  "(\<forall>nm od s out s'. download_pokemon_cards w iv fuel nm od s = Some (out, s') \<longrightarrow>
       (blank_lines (stdin s') + exits_of (trace s') = blank_lines (stdin s) + exits_of (trace s)
        \<and> length (stdin s') \<le> length (stdin s)
        \<and> (out = Returned \<or> out = Raised EOFError \<or> out = Raised RecursionError)
        \<and> (out = Returned \<longrightarrow> depth s' = depth s))
       \<and> (name_is_main iv \<and> out = Returned \<longrightarrow>
            levels_of (trace s') + exits_of (trace s) = levels_of (trace s) + exits_of (trace s')))
   \<and> (\<forall>s out s'. main w iv fuel s = Some (out, s') \<longrightarrow>
       (blank_lines (stdin s') + exits_of (trace s') = blank_lines (stdin s) + exits_of (trace s)
        \<and> length (stdin s') \<le> length (stdin s)
        \<and> (out = Returned \<or> out = Raised EOFError \<or> out = Raised RecursionError)
        \<and> (out = Returned \<longrightarrow> depth s' = depth s))
       \<and> (out = Returned \<longrightarrow> trace s' \<noteq> [] \<and> last (trace s') = Print Msg_exiting)
       \<and> (name_is_main iv \<and> out = Returned \<longrightarrow>
            levels_of (trace s') + exits_of (trace s) + 1 = levels_of (trace s) + exits_of (trace s')))
   \<and> (\<forall>s out s'. main_loop w iv fuel s = Some (out, s') \<longrightarrow>
       (blank_lines (stdin s') + exits_of (trace s') = blank_lines (stdin s) + exits_of (trace s)
        \<and> length (stdin s') \<le> length (stdin s)
        \<and> (out = Returned \<or> out = Raised EOFError \<or> out = Raised RecursionError)
        \<and> (out = Returned \<longrightarrow> depth s' = depth s))
       \<and> (out = Returned \<longrightarrow> trace s' \<noteq> [] \<and> last (trace s') = Print Msg_exiting)
       \<and> (name_is_main iv \<and> out = Returned \<longrightarrow>
            levels_of (trace s') + exits_of (trace s) + 1 = levels_of (trace s) + exits_of (trace s')))"
  (is "?D fuel \<and> ?M fuel \<and> ?L fuel")
proof (induction fuel)
  case 0
  show ?case by (simp add: Let_def)
next
  case (Suc k)
  then have Dk: "?D k" and Mk: "?M k" and Lk: "?L k" by blast+
  let ?Q = "\<lambda>s0 out s'. blank_lines (stdin s') + exits_of (trace s') = blank_lines (stdin s0) + exits_of (trace s0)
       \<and> length (stdin s') \<le> length (stdin s0)
       \<and> (out = Returned \<or> out = Raised EOFError \<or> out = Raised RecursionError)
       \<and> (out = Returned \<longrightarrow> depth s' = depth s0)"
  let ?P = "\<lambda>s0 out s'. ?Q s0 out s'
       \<and> (out = Returned \<longrightarrow> trace s' \<noteq> [] \<and> last (trace s') = Print Msg_exiting)
       \<and> (name_is_main iv \<and> out = Returned \<longrightarrow>
            levels_of (trace s') + exits_of (trace s0) + 1 = levels_of (trace s0) + exits_of (trace s'))"
  have D: "?D (Suc k)"
  proof (intro allI impI)
    fix nm od s out s'
    assume run: "download_pokemon_cards w iv (Suc k) nm od s = Some (out, s')"
    obtain r s1 where sc: "scrape w nm od s = (r, s1)" by (cases "scrape w nm od s")
    from scrape_counts [of w nm od s] stdin_scrape [of w nm od s] sc
    have s1: "stdin s1 = stdin s" "exits_of (trace s1) = exits_of (trace s)"
      "levels_of (trace s1) = levels_of (trace s) + (if r = None then 0 else 1)"
      "depth s1 = depth s"
      by simp_all
    show "?Q s out s'
       \<and> (name_is_main iv \<and> out = Returned \<longrightarrow>
            levels_of (trace s') + exits_of (trace s) = levels_of (trace s) + exits_of (trace s'))"
    proof (cases "r \<noteq> None \<and> name_is_main iv")
      case True
      with run sc have "main w iv k s1 = Some (out, s')" by (auto simp del: main.simps)
      with Mk have "?P s1 out s'" by blast
      with s1 True show ?thesis by auto
    next
      case False
      with run sc have "out = Returned" "s' = s1"
        by (auto simp del: main.simps split: option.splits if_splits)
      with s1 False show ?thesis by auto
    qed
  qed
  have nested: "?P s0 out s'"
    if run: "(case download_pokemon_cards w iv j nm ''./cards'' (s1\<lparr>depth := Suc (depth s0)\<rparr>) of
                None \<Rightarrow> None
              | Some (Returned, s2) \<Rightarrow> main_loop w iv j (s2\<lparr>depth := depth s0\<rparr>)
              | Some (out, s2) \<Rightarrow> Some (out, s2)) = Some (out, s')"
      and Dj: "?D j" and Lj: "?L j"
      and s1: "blank_lines (stdin s1) = blank_lines (stdin s0)" "length (stdin s1) \<le> length (stdin s0)"
        "exits_of (trace s1) = exits_of (trace s0)" "levels_of (trace s1) = levels_of (trace s0)"
    for s0 s1 out s' j nm
  proof -
    let ?s1 = "s1\<lparr>depth := Suc (depth s0)\<rparr>"
    from run obtain o1 s2
      where call: "download_pokemon_cards w iv j nm ''./cards'' ?s1 = Some (o1, s2)"
      by (auto split: option.splits)
    with Dj have d: "blank_lines (stdin s2) + exits_of (trace s2)
          = blank_lines (stdin ?s1) + exits_of (trace ?s1)"
      "length (stdin s2) \<le> length (stdin ?s1)"
      "o1 = Returned \<or> o1 = Raised EOFError \<or> o1 = Raised RecursionError"
      "name_is_main iv \<and> o1 = Returned \<longrightarrow>
        levels_of (trace s2) + exits_of (trace ?s1) = levels_of (trace ?s1) + exits_of (trace s2)"
      by blast+
    show ?thesis
    proof (cases "o1 = Returned")
      case True
      let ?s2 = "s2\<lparr>depth := depth s0\<rparr>"
      from True run call have "main_loop w iv j ?s2 = Some (out, s')" by simp
      with Lj have "?P ?s2 out s'" by blast
      with d True s1 show ?thesis by auto
    next
      case False
      with d(3) have "o1 = Raised EOFError \<or> o1 = Raised RecursionError" by simp
      with run call have "out = o1" "s' = s2" by auto
      with d s1 False show ?thesis by auto
    qed
  qed
  have L: "?L (Suc k)"
  proof (intro allI impI)
    fix s out s'
    assume run: "main_loop w iv (Suc k) s = Some (out, s')"
    show "?P s out s'"
    proof (cases "stdin s")
      case Nil
      with run show ?thesis
        by (auto simp: exits_of_def map_filter_append)
    next
      case (Cons line rest)
      let ?s1 = "emit (Input Prompt_next) (s\<lparr>stdin := rest\<rparr>)"
      have s1: "stdin ?s1 = rest" "exits_of (trace ?s1) = exits_of (trace s)"
        "levels_of (trace ?s1) = levels_of (trace s)" "depth ?s1 = depth s"
        by (simp_all add: exits_of_def levels_of_def found_unique_of_def map_filter_append)
      consider (blank) "strip line = []"
        | (invalid) "strip line \<noteq> []" "\<not> is_valid_input (strip line)"
        | (limit) "strip line \<noteq> []" "is_valid_input (strip line)"
            "recursion_limit w \<le> Suc (depth s)"
        | (valid) "strip line \<noteq> []" "is_valid_input (strip line)"
            "\<not> recursion_limit w \<le> Suc (depth s)"
        by blast
      then show ?thesis
      proof cases
        case blank
        with run Cons have "out = Returned" "s' = emit (Print Msg_exiting) ?s1"
          by (simp_all add: Let_def)
        with blank Cons show ?thesis
          by (simp add: exits_of_def levels_of_def found_unique_of_def map_filter_append
              blank_lines_def)
      next
        case invalid
        let ?s2 = "emit (Print Msg_invalid) ?s1"
        from run Cons invalid have "main_loop w iv k ?s2 = Some (out, s')"
          by (simp add: Let_def)
        with Lk have "?P ?s2 out s'" by blast
        moreover have "stdin ?s2 = rest" "exits_of (trace ?s2) = exits_of (trace s)"
          "levels_of (trace ?s2) = levels_of (trace s)" "depth ?s2 = depth s"
          by (simp_all add: exits_of_def levels_of_def found_unique_of_def map_filter_append)
        ultimately show ?thesis using Cons invalid by (simp add: blank_lines_def)
      next
        case limit
        with run Cons have "out = Raised RecursionError" "s' = ?s1"
          by (simp_all add: Let_def)
        with s1 Cons limit show ?thesis by (simp add: blank_lines_def)
      next
        case valid
        from run Cons valid
        have "(case download_pokemon_cards w iv k (strip line) ''./cards'' (?s1\<lparr>depth := Suc (depth s)\<rparr>) of
                None \<Rightarrow> None
              | Some (Returned, s2) \<Rightarrow> main_loop w iv k (s2\<lparr>depth := depth s\<rparr>)
              | Some (out, s2) \<Rightarrow> Some (out, s2)) = Some (out, s')"
          by (simp add: Let_def)
        from nested [OF this Dk Lk] s1 Cons valid show ?thesis
          by (simp add: blank_lines_def)
      qed
    qed
  qed
  have M: "?M (Suc k)"
  proof (intro allI impI)
    fix s out s'
    assume run: "main w iv (Suc k) s = Some (out, s')"
    consider (noarg) "\<not> 1 < length (sys_argv iv)"
      | (invalid) "1 < length (sys_argv iv)" "\<not> is_valid_input (strip (sys_argv iv ! 1))"
      | (limit) "1 < length (sys_argv iv)" "is_valid_input (strip (sys_argv iv ! 1))"
          "recursion_limit w \<le> Suc (depth s)"
      | (valid) "1 < length (sys_argv iv)" "is_valid_input (strip (sys_argv iv ! 1))"
          "\<not> recursion_limit w \<le> Suc (depth s)"
      by blast
    then show "?P s out s'"
    proof cases
      case noarg
      with run have "main_loop w iv (Suc k) s = Some (out, s')" by simp
      with L show ?thesis by blast
    next
      case invalid
      let ?s2 = "emit (Print Msg_invalid) s"
      from run invalid have "main_loop w iv (Suc k) ?s2 = Some (out, s')" by (simp add: Let_def)
      with L have "?P ?s2 out s'" by blast
      moreover have "stdin ?s2 = stdin s" "exits_of (trace ?s2) = exits_of (trace s)"
        "levels_of (trace ?s2) = levels_of (trace s)" "depth ?s2 = depth s"
        by (simp_all add: exits_of_def levels_of_def found_unique_of_def map_filter_append)
      ultimately show ?thesis by simp
    next
      case limit
      with run have "out = Raised RecursionError" "s' = s" by (simp_all add: Let_def)
      then show ?thesis by simp
    next
      case valid
      from run valid
      have "(case download_pokemon_cards w iv (Suc k) (strip (sys_argv iv ! 1)) ''./cards''
                    (s\<lparr>depth := Suc (depth s)\<rparr>) of
                None \<Rightarrow> None
              | Some (Returned, s2) \<Rightarrow> main_loop w iv (Suc k) (s2\<lparr>depth := depth s\<rparr>)
              | Some (out, s2) \<Rightarrow> Some (out, s2)) = Some (out, s')"
        by (simp add: Let_def)
      from nested [OF this D L] show ?thesis by simp
    qed
  qed
  from D M L show ?case by blast
qed

section \<open>The pattern of a card link\<close>

text \<open>
  The matcher agrees with the reading of the regular expression
  \<open>^/[^/]+-Expansion/[^/]+-Card-[^#]+\<close>: some prefix of the string is a slash, a
  non-empty segment without a slash, \<open>-Expansion/\<close>, another such segment, \<open>-Card-\<close>,
  and one character that is not \<open>#\<close>.
\<close>

lemma strip_prefix_iff: "strip_prefix lit s = Some r \<longleftrightarrow> s = lit @ r"
  by (induction lit s rule: strip_prefix.induct) auto

lemma after_seg_iff:
  "r \<in> set (after_seg lit s) \<longleftrightarrow>
     (\<exists>seg. seg \<noteq> [] \<and> CHR ''/'' \<notin> set seg \<and> s = seg @ lit @ r)"
proof (induction s)
  case Nil
  show ?case by simp
next
  case (Cons c cs)
  show ?case
  proof (cases "c = CHR ''/''")
    case True
    then show ?thesis by (auto simp: Cons_eq_append_conv)
  next
    case False
    have "r \<in> set (after_seg lit (c # cs)) \<longleftrightarrow> cs = lit @ r \<or> r \<in> set (after_seg lit cs)"
      using False by (cases "strip_prefix lit cs") (auto simp: strip_prefix_iff [symmetric])
    also have "\<dots> \<longleftrightarrow> (\<exists>seg. seg \<noteq> [] \<and> CHR ''/'' \<notin> set seg \<and> c # cs = seg @ lit @ r)"
    proof
      assume "cs = lit @ r \<or> r \<in> set (after_seg lit cs)"
      then show "\<exists>seg. seg \<noteq> [] \<and> CHR ''/'' \<notin> set seg \<and> c # cs = seg @ lit @ r"
      proof
        assume "cs = lit @ r"
        with False show ?thesis by (intro exI [of _ "[c]"]) simp
      next
        assume "r \<in> set (after_seg lit cs)"
        with Cons.IH obtain seg where "seg \<noteq> []" "CHR ''/'' \<notin> set seg" "cs = seg @ lit @ r"
          by blast
        with False show ?thesis by (intro exI [of _ "c # seg"]) simp
      qed
    next
      assume "\<exists>seg. seg \<noteq> [] \<and> CHR ''/'' \<notin> set seg \<and> c # cs = seg @ lit @ r"
      then obtain seg where seg: "seg \<noteq> []" "CHR ''/'' \<notin> set seg" "c # cs = seg @ lit @ r"
        by blast
      then obtain seg' where seg': "seg = c # seg'" "cs = seg' @ lit @ r"
        by (cases seg) auto
      show "cs = lit @ r \<or> r \<in> set (after_seg lit cs)"
      proof (cases "seg' = []")
        case True
        with seg' show ?thesis by simp
      next
        case False
        with seg seg' Cons.IH show ?thesis by auto
      qed
    qed
    finally show ?thesis .
  qed
qed

lemma card_href_match_iff:
  "card_href_match href \<longleftrightarrow>
     (\<exists>seg1 seg2 c rest.
        href = ''/'' @ seg1 @ ''-Expansion/'' @ seg2 @ ''-Card-'' @ c # rest
        \<and> seg1 \<noteq> [] \<and> CHR ''/'' \<notin> set seg1
        \<and> seg2 \<noteq> [] \<and> CHR ''/'' \<notin> set seg2
        \<and> c \<noteq> CHR ''#'')"
proof
  assume "card_href_match href"
  then obtain r r1 r2 where "href = CHR ''/'' # r" "r1 \<in> set (after_seg ''-Expansion/'' r)"
    "r2 \<in> set (after_seg ''-Card-'' r1)" "nonhash_start r2"
    by (auto simp: card_href_match_def list_ex_iff split: list.splits)
  moreover then obtain c rest where "r2 = c # rest" "c \<noteq> CHR ''#''"
    by (auto simp: nonhash_start_def split: list.splits)
  ultimately show "\<exists>seg1 seg2 c rest.
        href = ''/'' @ seg1 @ ''-Expansion/'' @ seg2 @ ''-Card-'' @ c # rest
        \<and> seg1 \<noteq> [] \<and> CHR ''/'' \<notin> set seg1
        \<and> seg2 \<noteq> [] \<and> CHR ''/'' \<notin> set seg2
        \<and> c \<noteq> CHR ''#''"
    unfolding after_seg_iff by auto
next
  assume "\<exists>seg1 seg2 c rest.
        href = ''/'' @ seg1 @ ''-Expansion/'' @ seg2 @ ''-Card-'' @ c # rest
        \<and> seg1 \<noteq> [] \<and> CHR ''/'' \<notin> set seg1
        \<and> seg2 \<noteq> [] \<and> CHR ''/'' \<notin> set seg2
        \<and> c \<noteq> CHR ''#''"
  then obtain seg1 seg2 c rest where h: "href = ''/'' @ seg1 @ ''-Expansion/'' @ seg2 @ ''-Card-'' @ c # rest"
    "seg1 \<noteq> []" "CHR ''/'' \<notin> set seg1" "seg2 \<noteq> []" "CHR ''/'' \<notin> set seg2" "c \<noteq> CHR ''#''"
    by blast
  let ?r1 = "seg2 @ ''-Card-'' @ c # rest"
  from h have "?r1 \<in> set (after_seg ''-Expansion/'' (seg1 @ ''-Expansion/'' @ ?r1))"
    unfolding after_seg_iff by blast
  moreover from h have "c # rest \<in> set (after_seg ''-Card-'' ?r1)"
    unfolding after_seg_iff by blast
  moreover from h have "nonhash_start (c # rest)"
    by (simp add: nonhash_start_def)
  ultimately show "card_href_match href"
    unfolding card_href_match_def list_ex_iff h(1) by auto
qed

section \<open>The order of the tiers (C1)\<close>

lemma tier1_SomeI:
  assumes "List.find is_card_div (all_tags sp) = Some card_div"
    and "List.find is_img (descendants card_div) = Some img"
    and "get img ''src'' = Some src"
    and "contains image_host src" and "image_ext_ok src"
  shows "tier1 sp = Some src"
  using assms contains_host_nonempty [of src]
  by (simp add: tier1_def get_default_def)

lemma meta_content_SomeI:
  assumes "List.find (\<lambda>t. tag_name t = ''meta'' \<and> get t key = Some val) (all_tags sp) = Some meta"
    and "get meta ''content'' = Some src"
    and "contains image_host src"
  shows "meta_content key val sp = Some src"
  using assms contains_host_nonempty [of src]
  by (simp add: meta_content_def)

lemma image_url_of_tier1: "tier1 sp = Some src \<Longrightarrow> image_url_of sp = Some src"
  by (simp add: image_url_of_def)

lemma image_url_of_og:
  "tier1 sp = None \<Longrightarrow> meta_content ''property'' ''og:image'' sp = Some src
     \<Longrightarrow> image_url_of sp = Some src"
  by (simp add: image_url_of_def tier2_def)

lemma image_url_of_itemprop:
  "tier1 sp = None \<Longrightarrow> meta_content ''property'' ''og:image'' sp = None
     \<Longrightarrow> meta_content ''itemprop'' ''image'' sp = Some src
     \<Longrightarrow> image_url_of sp = Some src"
  by (simp add: image_url_of_def tier2_def)

lemma image_url_of_scan:
  "tier1 sp = None \<Longrightarrow> tier2 sp = None
     \<Longrightarrow> image_url_of sp
         = List.find (\<lambda>src. contains image_host src \<and> image_ext_ok src) (img_srcs sp)"
  by (simp add: image_url_of_def tier3_def)

lemma card_image_url_served:
  "fetch_page w (clock s) (card_request card_url) = Some sp
     \<Longrightarrow> fst (get_card_image_url w card_url pokemon_name s) = image_url_of sp"
  by (simp add: get_card_image_url_def)

text \<open>
  C1, as the code has it, for a detail page that the site serves. The tiers are tried
  in the order 1, 2, 3 and the first match is returned:
  \<^item> when the first \<open>div\<close> of class \<open>card\<close> of the page, in document order, holds an
    image, and the first image in it has a source on the image host with a recognised
    extension, \<open>get_card_image_url\<close> returns that source, whatever the meta tags and
    the other images of the page are;
  \<^item> when the first tier gives nothing and the first \<open>og:image\<close> meta tag has a content
    on the image host, that content is returned, whatever the \<open>itemprop=image\<close> tags
    and the images of the page are;
  \<^item> when the first tier and the \<open>og:image\<close> tag give nothing and the first
    \<open>itemprop=image\<close> meta tag has a content on the image host, that content is
    returned, whatever the images of the page are;
  \<^item> when the first two tiers give nothing, the result is the first source, among the
    images of the page in document order, on the image host with a recognised
    extension, and none when there is no such source.
\<close>

theorem card_container_first:
  "fetch_page w (clock s) (card_request card_url) = Some sp \<longrightarrow>
     (\<forall>card_div img src.
        List.find is_card_div (all_tags sp) = Some card_div
        \<and> List.find is_img (descendants card_div) = Some img
        \<and> get img ''src'' = Some src \<and> contains image_host src \<and> image_ext_ok src
        \<longrightarrow> fst (get_card_image_url w card_url pokemon_name s) = Some src)
   \<and> (\<forall>meta src.
        tier1 sp = None
        \<and> List.find (\<lambda>t. tag_name t = ''meta'' \<and> get t ''property'' = Some ''og:image'') (all_tags sp)
            = Some meta
        \<and> get meta ''content'' = Some src \<and> contains image_host src
        \<longrightarrow> fst (get_card_image_url w card_url pokemon_name s) = Some src)
   \<and> (\<forall>meta src.
        tier1 sp = None
        \<and> meta_content ''property'' ''og:image'' sp = None
        \<and> List.find (\<lambda>t. tag_name t = ''meta'' \<and> get t ''itemprop'' = Some ''image'') (all_tags sp)
            = Some meta
        \<and> get meta ''content'' = Some src \<and> contains image_host src
        \<longrightarrow> fst (get_card_image_url w card_url pokemon_name s) = Some src)
   \<and> (tier1 sp = None \<and> tier2 sp = None
        \<longrightarrow> fst (get_card_image_url w card_url pokemon_name s)
            = List.find (\<lambda>src. contains image_host src \<and> image_ext_ok src) (img_srcs sp))"
proof (intro impI conjI allI)
  fix card_div img src
  assume page: "fetch_page w (clock s) (card_request card_url) = Some sp"
    and "List.find is_card_div (all_tags sp) = Some card_div
        \<and> List.find is_img (descendants card_div) = Some img
        \<and> get img ''src'' = Some src \<and> contains image_host src \<and> image_ext_ok src"
  then have "tier1 sp = Some src" by (simp add: tier1_SomeI)
  with page show "fst (get_card_image_url w card_url pokemon_name s) = Some src"
    by (simp add: card_image_url_served image_url_of_tier1)
next
  fix meta src
  assume page: "fetch_page w (clock s) (card_request card_url) = Some sp"
    and a: "tier1 sp = None
        \<and> List.find (\<lambda>t. tag_name t = ''meta'' \<and> get t ''property'' = Some ''og:image'') (all_tags sp)
            = Some meta
        \<and> get meta ''content'' = Some src \<and> contains image_host src"
  then have "meta_content ''property'' ''og:image'' sp = Some src"
    by (simp add: meta_content_SomeI)
  with page a show "fst (get_card_image_url w card_url pokemon_name s) = Some src"
    by (simp add: card_image_url_served image_url_of_og)
next
  fix meta src
  assume page: "fetch_page w (clock s) (card_request card_url) = Some sp"
    and a: "tier1 sp = None
        \<and> meta_content ''property'' ''og:image'' sp = None
        \<and> List.find (\<lambda>t. tag_name t = ''meta'' \<and> get t ''itemprop'' = Some ''image'') (all_tags sp)
            = Some meta
        \<and> get meta ''content'' = Some src \<and> contains image_host src"
  then have "meta_content ''itemprop'' ''image'' sp = Some src"
    by (simp add: meta_content_SomeI)
  with page a show "fst (get_card_image_url w card_url pokemon_name s) = Some src"
    by (simp add: card_image_url_served image_url_of_itemprop)
next
  assume page: "fetch_page w (clock s) (card_request card_url) = Some sp"
    and "tier1 sp = None \<and> tier2 sp = None"
  then show "fst (get_card_image_url w card_url pokemon_name s)
      = List.find (\<lambda>src. contains image_host src \<and> image_ext_ok src) (img_srcs sp)"
    by (simp add: card_image_url_served image_url_of_scan)
qed

text \<open>
  C1 on four detail pages: one that has the card image in its card container and an
  \<open>og:image\<close> tag with another URL on the image host; one without a card container,
  where the \<open>og:image\<close> tag wins over an \<open>itemprop=image\<close> tag that stands before it and
  over an image; one where the \<open>itemprop=image\<close> tag wins over an image; and one with
  images only, where the first that passes the check wins.
\<close>

theorem card_container_first_witness:
  "meta_image_contents detail_page = [''https://den-cards.pokellector.com/og/Pikachu-social.jpg'']
   \<and> fst (get_card_image_url (serving detail_page)
           ''https://www.pokellector.com/Base-Expansion/Pikachu-Card-58'' None fresh)
       = Some ''https://den-cards.pokellector.com/1/Pikachu.BS.58.png''
   \<and> fst (get_card_image_url (serving og_page)
           ''https://www.pokellector.com/Base-Expansion/Pikachu-Card-58'' None fresh)
       = Some ''https://den-cards.pokellector.com/og/Pikachu-social.jpg''
   \<and> fst (get_card_image_url (serving itemprop_page)
           ''https://www.pokellector.com/Base-Expansion/Pikachu-Card-58'' None fresh)
       = Some ''https://den-cards.pokellector.com/og/Pikachu-item.jpg''
   \<and> fst (get_card_image_url (serving loose_page)
           ''https://www.pokellector.com/Base-Expansion/Pikachu-Card-58'' None fresh)
       = Some ''https://den-cards.pokellector.com/3/Raichu.FO.14.png''"
proof -
  let ?url = "''https://www.pokellector.com/Base-Expansion/Pikachu-Card-58''"
  let ?src = "''https://den-cards.pokellector.com/1/Pikachu.BS.58.png''"
  let ?div = "Tag ''div'' [''card''] [] [image ?src]"
  let ?og = "''https://den-cards.pokellector.com/og/Pikachu-social.jpg''"
  let ?item = "''https://den-cards.pokellector.com/og/Pikachu-item.jpg''"
  have page: "fetch_page (serving sp) (clock fresh) (card_request ?url) = Some sp" for sp
    by (simp add: serving_def)
  have og: "meta_image_contents detail_page = [?og]"
    by code_simp
  have container: "List.find is_card_div (all_tags detail_page) = Some ?div"
    by code_simp
  have img: "List.find is_img (descendants ?div) = Some (image ?src)"
    by code_simp
  have src: "get (image ?src) ''src'' = Some ?src" "contains image_host ?src" "image_ext_ok ?src"
    by code_simp+
  from card_container_first [of "serving detail_page" fresh ?url detail_page None] page
    container img src
  have one: "fst (get_card_image_url (serving detail_page) ?url None fresh) = Some ?src"
    by blast
  have no1: "tier1 og_page = None" "tier1 itemprop_page = None" "tier1 loose_page = None"
    by code_simp+
  have og_tag: "List.find (\<lambda>t. tag_name t = ''meta'' \<and> get t ''property'' = Some ''og:image'')
        (all_tags og_page) = Some (og_meta ?og)"
    by code_simp
  have og_content: "get (og_meta ?og) ''content'' = Some ?og" "contains image_host ?og"
    by code_simp+
  from card_container_first [of "serving og_page" fresh ?url og_page None] page
    no1(1) og_tag og_content
  have two: "fst (get_card_image_url (serving og_page) ?url None fresh) = Some ?og"
    by blast
  have no_og: "meta_content ''property'' ''og:image'' itemprop_page = None"
    by code_simp
  have item_tag: "List.find (\<lambda>t. tag_name t = ''meta'' \<and> get t ''itemprop'' = Some ''image'')
        (all_tags itemprop_page) = Some (itemprop_meta ?item)"
    by code_simp
  have item_content: "get (itemprop_meta ?item) ''content'' = Some ?item" "contains image_host ?item"
    by code_simp+
  from card_container_first [of "serving itemprop_page" fresh ?url itemprop_page None] page
    no1(2) no_og item_tag item_content
  have three: "fst (get_card_image_url (serving itemprop_page) ?url None fresh) = Some ?item"
    by blast
  have no2: "tier2 loose_page = None"
    by code_simp
  have scan: "List.find (\<lambda>src. contains image_host src \<and> image_ext_ok src) (img_srcs loose_page)
      = Some ''https://den-cards.pokellector.com/3/Raichu.FO.14.png''"
    by code_simp
  from card_container_first [of "serving loose_page" fresh ?url loose_page None] page
    no1(3) no2 scan
  have four: "fst (get_card_image_url (serving loose_page) ?url None fresh)
      = Some ''https://den-cards.pokellector.com/3/Raichu.FO.14.png''"
    by simp
  from og one two three four show ?thesis by simp
qed

text \<open>
  C1 as the specification words it fails on a page with two containers of class
  \<open>card\<close>, the first without an image and the second with the card image: the page
  holds a card-container image that passes the check and an \<open>og:image\<close> tag with
  another URL on the image host, and the URL of the \<open>og:image\<close> tag is returned.
\<close>

theorem card_container_not_first:
  "card_container_images two_containers = [''https://den-cards.pokellector.com/1/Pikachu.BS.58.png'']
   \<and> meta_image_contents two_containers = [''https://den-cards.pokellector.com/og/Pikachu-social.jpg'']
   \<and> fst (get_card_image_url (serving two_containers)
           ''https://www.pokellector.com/Base-Expansion/Pikachu-Card-58'' None fresh)
       = Some ''https://den-cards.pokellector.com/og/Pikachu-social.jpg''"
  by code_simp

section \<open>Pages without an image on the image host (C2)\<close>

lemma tier1_in_img_srcs:
  assumes "tier1 sp = Some src"
  shows "src \<in> set (img_srcs sp) \<and> contains image_host src"
proof -
  from assms obtain d i where d: "List.find is_card_div (all_tags sp) = Some d"
    and i: "List.find is_img (descendants d) = Some i"
    and src: "src = get_default i ''src'' []" "contains image_host src"
    by (simp add: tier1_def Let_def split: option.splits if_splits)
  from find_SomeD [OF d] have "d \<in> set (all_tags sp)" by simp
  moreover from find_SomeD [OF i] have img: "is_img i" "i \<in> set (descendants d)" by simp_all
  ultimately have "i \<in> set (all_tags sp)" by (simp add: all_tags_closed)
  with img(1) src show ?thesis by (simp add: img_srcs_def)
qed

lemma meta_content_mem:
  assumes "meta_content key val sp = Some src"
    and "(key = ''property'' \<and> val = ''og:image'') \<or> (key = ''itemprop'' \<and> val = ''image'')"
  shows "src \<in> set (meta_image_contents sp) \<and> contains image_host src"
proof -
  from assms(1) obtain m
    where m: "List.find (\<lambda>t. tag_name t = ''meta'' \<and> get t key = Some val) (all_tags sp) = Some m"
      and src: "get m ''content'' = Some src" "contains image_host src"
    by (simp add: meta_content_def split: option.splits if_splits)
  from find_SomeD [OF m] have "tag_name m = ''meta''" "get m key = Some val" "m \<in> set (all_tags sp)"
    by simp_all
  with assms(2) src(1) have "src \<in> set (meta_image_contents sp)"
    unfolding meta_image_contents_def set_map_filter by fastforce
  with src(2) show ?thesis by simp
qed

lemma tier2_in_meta:
  assumes "tier2 sp = Some src"
  shows "src \<in> set (meta_image_contents sp) \<and> contains image_host src"
proof (cases "meta_content ''property'' ''og:image'' sp")
  case None
  with assms have "meta_content ''itemprop'' ''image'' sp = Some src" by (simp add: tier2_def)
  then show ?thesis by (rule meta_content_mem) simp
next
  case (Some u)
  with assms have "meta_content ''property'' ''og:image'' sp = Some src" by (simp add: tier2_def)
  then show ?thesis by (rule meta_content_mem) simp
qed

lemma tier3_in_img_srcs:
  "tier3 sp = Some src \<Longrightarrow> src \<in> set (img_srcs sp) \<and> contains image_host src"
  unfolding tier3_def by (drule find_SomeD) simp

lemma image_url_of_source:
  assumes "image_url_of sp = Some src"
  shows "src \<in> set (img_srcs sp @ meta_image_contents sp) \<and> contains image_host src"
proof -
  from assms have "tier1 sp = Some src \<or> tier2 sp = Some src \<or> tier3 sp = Some src"
    by (simp add: image_url_of_def split: option.splits)
  then show ?thesis
    using tier1_in_img_srcs [of sp src] tier2_in_meta [of sp src] tier3_in_img_srcs [of sp src]
    by auto
qed

text \<open>
  C2: when no image source and no content of an \<open>og:image\<close> or \<open>itemprop=image\<close>
  meta tag of the detail page names the image host, or the three tiers all fail on the
  page, \<open>get_card_image_url\<close> returns \<open>None\<close>; so it does when the fetch of the page
  fails.
\<close>

theorem no_host_no_image:
  assumes "\<forall>sp. fetch_page w (clock s) (card_request card_url) = Some sp \<longrightarrow>
             (\<forall>u \<in> set (img_srcs sp @ meta_image_contents sp). \<not> contains image_host u)
             \<or> (tier1 sp = None \<and> tier2 sp = None \<and> tier3 sp = None)"
  shows "fst (get_card_image_url w card_url pokemon_name s) = None"
proof (cases "fetch_page w (clock s) (card_request card_url)")
  case None
  then show ?thesis by (simp add: get_card_image_url_def)
next
  case (Some sp)
  have "image_url_of sp = None"
  proof (rule ccontr)
    assume "image_url_of sp \<noteq> None"
    then obtain src where src: "image_url_of sp = Some src" by auto
    then have "\<not> (tier1 sp = None \<and> tier2 sp = None \<and> tier3 sp = None)"
      by (auto simp: image_url_of_def)
    with image_url_of_source [OF src] assms Some show False by blast
  qed
  with Some show ?thesis by (simp add: get_card_image_url_def)
qed

text \<open>C2 on a detail page whose image and \<open>og:image\<close> tag point to another host\<close>

theorem no_host_no_image_witness:
  "img_srcs foreign_page @ meta_image_contents foreign_page
     = [''https://cdn.example.org/Pikachu.png'', ''https://cdn.example.org/social.jpg'']
   \<and> fst (get_card_image_url (serving foreign_page)
           ''https://www.pokellector.com/Base-Expansion/Pikachu-Card-58'' None fresh) = None"
proof -
  have urls: "img_srcs foreign_page @ meta_image_contents foreign_page
      = [''https://cdn.example.org/Pikachu.png'', ''https://cdn.example.org/social.jpg'']"
    by code_simp
  have "\<not> contains image_host ''https://cdn.example.org/Pikachu.png''"
    and "\<not> contains image_host ''https://cdn.example.org/social.jpg''"
    by code_simp+
  with urls have "\<forall>sp. fetch_page (serving foreign_page) (clock fresh)
        (card_request ''https://www.pokellector.com/Base-Expansion/Pikachu-Card-58'') = Some sp \<longrightarrow>
      (\<forall>u \<in> set (img_srcs sp @ meta_image_contents sp). \<not> contains image_host u)
      \<or> (tier1 sp = None \<and> tier2 sp = None \<and> tier3 sp = None)"
    by (simp add: serving_def)
  from no_host_no_image [OF this] urls show ?thesis
    by simp
qed

section \<open>The number of result pages (C3)\<close>

lemma search_page_param_guard:
  "search_page_param h = Some d \<Longrightarrow> contains ''?p='' h \<or> contains ''&p='' h"
  by (induction h) (auto split: if_splits)

lemma update_max_page_eq:
  "update_max_page w m h =
     (case search_page_param h of
        None \<Rightarrow> m
      | Some ds \<Rightarrow> (case py_int (int_max_str_digits w) ds of None \<Rightarrow> m | Some n \<Rightarrow> max m n))"
  using search_page_param_guard [of h]
  by (auto simp: update_max_page_def split: option.splits)

lemma foldl_update_max_page:
  "foldl (update_max_page w) m hs
     = Max (insert m (set (List.map_filter (py_int (int_max_str_digits w))
                             (List.map_filter search_page_param hs))))"
  (is "_ = Max (insert m (set (?R hs)))")
proof (induction hs arbitrary: m)
  case Nil
  show ?case by simp
next
  case (Cons h hs)
  have step: "foldl (update_max_page w) m (h # hs) = Max (insert (update_max_page w m h) (set (?R hs)))"
    by (simp add: Cons.IH)
  show ?case
  proof (cases "search_page_param h")
    case None
    then show ?thesis unfolding step by (simp add: update_max_page_eq)
  next
    case (Some ds)
    show ?thesis
    proof (cases "py_int (int_max_str_digits w) ds")
      case None
      with Some show ?thesis unfolding step by (simp add: update_max_page_eq)
    next
      case (Some n)
      have "Max (insert (max m n) (set (?R hs))) = Max (insert m (insert n (set (?R hs))))"
        by (cases "set (?R hs) = {}") (simp_all add: max.assoc)
      with Some \<open>search_page_param h = Some ds\<close> show ?thesis
        unfolding step by (simp add: update_max_page_eq)
    qed
  qed
qed

lemma readable_all:
  assumes "\<forall>ds \<in> set dss. length ds \<le> 640 \<or> L = 0 \<or> length ds \<le> L"
  shows "List.map_filter (py_int L) dss = map int_of_digits dss"
  using assms by (induction dss) (auto simp: py_int_def)

lemma page_params_paged_long: "page_params paged_long = [replicate 4301 (CHR ''9'')]"
proof -
  have "isdigit (CHR ''9'')" by code_simp
  then have "search_page_param (''/search?criteria=pikachu&p='' @ replicate 4301 (CHR ''9''))
      = Some (replicate 4301 (CHR ''9''))"
    by (simp add: takeWhile_replicate)
  then show ?thesis
    by (simp add: page_params_def paged_long_def anchor_hrefs_def all_tags_def anchor_def get_def)
qed

text \<open>
  C3, as the code has it: \<open>get_total_pages\<close> returns 0 when the fetch of page 1 fails;
  otherwise it returns the larger of 1 and the greatest page number that \<open>int\<close> reads
  from the links of the page (for each link, the digits of its leftmost page
  parameter; a link whose digits are more than the interpreter's limit allows is
  skipped), hence 1 when no link carries one. When no page number has more digits
  than the limit allows, or more than 640, the result is the larger of 1 and the
  greatest page number observed.
\<close>

theorem get_total_pages_max:
  "fst (get_total_pages w pokemon_name s) =
     (case fetch_page w (clock s) (search_request pokemon_name 1) of
        None \<Rightarrow> 0
      | Some sp \<Rightarrow> Max (insert 1 (set (readable_page_numbers (int_max_str_digits w) sp))))
   \<and> (\<forall>sp. fetch_page w (clock s) (search_request pokemon_name 1) = Some sp
         \<and> (\<forall>ds \<in> set (page_params sp).
               length ds \<le> 640 \<or> int_max_str_digits w = 0 \<or> length ds \<le> int_max_str_digits w)
         \<longrightarrow> fst (get_total_pages w pokemon_name s) = Max (insert 1 (set (page_numbers sp))))"
proof -
  have eq: "fst (get_total_pages w pokemon_name s) =
     (case fetch_page w (clock s) (search_request pokemon_name 1) of
        None \<Rightarrow> 0
      | Some sp \<Rightarrow> Max (insert 1 (set (readable_page_numbers (int_max_str_digits w) sp))))"
    by (simp add: get_total_pages_def max_page_of_def readable_page_numbers_def page_params_def
        foldl_update_max_page split: option.splits)
  have "fst (get_total_pages w pokemon_name s) = Max (insert 1 (set (page_numbers sp)))"
    if "fetch_page w (clock s) (search_request pokemon_name 1) = Some sp"
      and "\<forall>ds \<in> set (page_params sp).
               length ds \<le> 640 \<or> int_max_str_digits w = 0 \<or> length ds \<le> int_max_str_digits w"
    for sp
    using that eq readable_all [of "page_params sp" "int_max_str_digits w"]
    by (simp add: readable_page_numbers_def page_numbers_def)
  with eq show ?thesis by blast
qed

text \<open>
  C3 on four sites: one that does not answer, one whose page has no link, one whose
  links carry \<open>p=3\<close> and \<open>p=7\<close>, and one whose only pagination link carries a page
  number of 4301 digits, which \<open>int\<close> refuses.
\<close>

theorem get_total_pages_examples:
  "fst (get_total_pages offline ''pikachu'' fresh) = 0
   \<and> fst (get_total_pages (serving []) ''pikachu'' fresh) = 1
   \<and> fst (get_total_pages (serving paged_3_7) ''pikachu'' fresh) = 7
   \<and> fst (get_total_pages (serving paged_long) ''pikachu'' fresh) = 1"
proof -
  have a: "fetch_page offline (clock fresh) (search_request ''pikachu'' 1) = None"
    by (simp add: offline_def)
  have page: "fetch_page (serving sp) (clock fresh) (search_request ''pikachu'' 1) = Some sp" for sp
    by (simp add: serving_def)
  have limit: "int_max_str_digits (serving sp) = 4300" for sp
    by (simp add: serving_def)
  have b: "page_params [] = []" "page_numbers [] = []"
    by code_simp+
  have c: "page_params paged_3_7 = [''3'', ''7'']" "page_numbers paged_3_7 = [3, 7]"
    by code_simp+
  have d: "readable_page_numbers 4300 paged_long = []"
    by (simp add: readable_page_numbers_def page_params_paged_long py_int_def)
  from get_total_pages_max [of offline "''pikachu''" fresh] a
  have "fst (get_total_pages offline ''pikachu'' fresh) = 0" by simp
  moreover from get_total_pages_max [of "serving []" "''pikachu''" fresh] page [of "[]"] b
  have "fst (get_total_pages (serving []) ''pikachu'' fresh) = 1" by simp
  moreover from get_total_pages_max [of "serving paged_3_7" "''pikachu''" fresh] page [of paged_3_7] c
  have "fst (get_total_pages (serving paged_3_7) ''pikachu'' fresh) = 7" by simp
  moreover from get_total_pages_max [of "serving paged_long" "''pikachu''" fresh] page [of paged_long]
    limit [of paged_long] d
  have "fst (get_total_pages (serving paged_long) ''pikachu'' fresh) = 1" by simp
  ultimately show ?thesis by simp
qed

text \<open>
  C3 as the specification words it fails on a page whose only pagination link carries
  \<open>p=0\<close>: the greatest page number observed is 0, and the function returns 1.
\<close>

theorem get_total_pages_page_zero:
  "fetch_page (serving paged_0) (clock fresh) (search_request ''pikachu'' 1) = Some paged_0
   \<and> page_numbers paged_0 = [0]
   \<and> fst (get_total_pages (serving paged_0) ''pikachu'' fresh) \<noteq> Max (set (page_numbers paged_0))"
  by code_simp

section \<open>The links of a search page (C4)\<close>

text \<open>The list returned has no duplicates.\<close>

lemma add_card_link_distinct: "distinct ls \<Longrightarrow> distinct (add_card_link ls href)"
  by (simp add: add_card_link_def Let_def)

lemma card_links_distinct: "distinct (card_links_of sp)"
proof -
  have "distinct ls \<Longrightarrow> distinct (foldl add_card_link ls hs)" for ls hs
    by (induction hs arbitrary: ls) (simp_all add: add_card_link_distinct)
  then show ?thesis by (simp add: card_links_of_def)
qed

text \<open>
  C4 at a failing input: for a link \<open>/a#b-Expansion/c-Card-d\<close> the pattern matches,
  since \<open>[^/]+\<close> also takes the \<open>#\<close>, and the URL returned, cut at the \<open>#\<close>, has the
  path \<open>/a\<close>, which is not of the detail-link shape.
\<close>

theorem search_returns_non_detail_url:
  "fst (search_pokemon_cards (serving fragment_page) ''pikachu'' 1 fresh)
     = [''https://www.pokellector.com/a'']
   \<and> \<not> is_detail_url ''https://www.pokellector.com/a''"
  by code_simp

section \<open>Files that are already there (C5)\<close>

lemma writes_of_simps:
  "writes_of [] = []"
  "writes_of (es @ es') = writes_of es @ writes_of es'"
  "writes_of (Http_get rq # es) = writes_of es"
  "writes_of (Print m # es) = writes_of es"
  "writes_of (Sleep n # es) = writes_of es"
  "writes_of (Mkdir d # es) = writes_of es"
  "writes_of (Write_file p # es) = p # writes_of es"
  "writes_of (Input q # es) = writes_of es"
  by (simp_all add: writes_of_def map_filter_append)

text \<open>Fetching pages leaves the files alone\<close>

lemma files_search:
  "files (snd (search_pokemon_cards w nm p s)) = files s"
  "writes_of (trace (snd (search_pokemon_cards w nm p s))) = writes_of (trace s)"
  by (simp_all add: search_pokemon_cards_def Let_def writes_of_simps split: option.splits)

lemma files_total_pages:
  "files (snd (get_total_pages w nm s)) = files s"
  "writes_of (trace (snd (get_total_pages w nm s))) = writes_of (trace s)"
  by (simp_all add: get_total_pages_def Let_def writes_of_simps split: option.splits)

lemma files_card_image_url:
  "files (snd (get_card_image_url w c pn s)) = files s"
  "writes_of (trace (snd (get_card_image_url w c pn s))) = writes_of (trace s)"
  by (simp_all add: get_card_image_url_def Let_def writes_of_simps split: option.splits)

lemma files_page_loop:
  "files (snd (page_loop w nm tp ps acc)) = files (snd acc)
   \<and> writes_of (trace (snd (page_loop w nm tp ps acc))) = writes_of (trace (snd acc))"
proof (induction ps arbitrary: acc)
  case Nil
  show ?case by simp
next
  case (Cons p ps)
  obtain U s where acc: "acc = (U, s)" by (cases acc)
  let ?s1 = "emit (Print (Msg_scraping p tp)) s"
  obtain urls s2 where sr: "search_pokemon_cards w nm p ?s1 = (urls, s2)"
    by (cases "search_pokemon_cards w nm p ?s1")
  with files_search [of w nm p ?s1]
  have "files s2 = files s" "writes_of (trace s2) = writes_of (trace s)"
    by (simp_all add: writes_of_simps)
  with acc sr show ?case by (simp add: Cons.IH writes_of_simps)
qed

text \<open>On a static site the results of the fetches do not depend on the state\<close>

lemma static_fetch:
  "static w \<Longrightarrow> fetch_page w t = fetch_page w 0"
  "static w \<Longrightarrow> fetch_stream w t = fetch_stream w 0"
  by (simp_all add: static_def)

lemma static_search:
  "static w \<Longrightarrow> fst (search_pokemon_cards w nm p s) = fst (search_pokemon_cards w nm p s')"
  by (simp add: search_pokemon_cards_def Let_def static_fetch(1) [of w "clock s"]
      static_fetch(1) [of w "clock s'"] split: option.splits)

lemma static_total_pages:
  "static w \<Longrightarrow> fst (get_total_pages w nm s) = fst (get_total_pages w nm s')"
  by (simp add: get_total_pages_def Let_def static_fetch(1) [of w "clock s"]
      static_fetch(1) [of w "clock s'"] split: option.splits)

lemma static_card_image_url:
  "static w \<Longrightarrow> fst (get_card_image_url w c pn s) = image_of w c"
  by (simp add: get_card_image_url_def image_of_def Let_def static_fetch(1) [of w "clock s"]
      split: option.splits)

lemma static_page_loop:
  assumes "static w"
  shows "fst (page_loop w nm tp ps (U, s)) = fst (page_loop w nm tp ps (U, s'))"
proof (induction ps arbitrary: U s s')
  case Nil
  show ?case by simp
next
  case (Cons p ps)
  let ?a = "emit (Print (Msg_scraping p tp)) s" and ?b = "emit (Print (Msg_scraping p tp)) s'"
  obtain urls s2 where a: "search_pokemon_cards w nm p ?a = (urls, s2)"
    by (cases "search_pokemon_cards w nm p ?a")
  obtain urls' s2' where b: "search_pokemon_cards w nm p ?b = (urls', s2')"
    by (cases "search_pokemon_cards w nm p ?b")
  from static_search [OF assms, of nm p ?a ?b] a b have "urls' = urls" by simp
  with a b show ?case
    using Cons.IH [of "U \<union> set urls" "emit (Sleep 1000) s2" "emit (Sleep 1000) s2'"] by simp
qed

lemma static_collected:
  assumes "static w"
  shows "collected w nm od s = collected w nm od s'"
proof -
  let ?a = "emit (Print (Msg_searching nm)) (emit (Mkdir od) s)"
  let ?b = "emit (Print (Msg_searching nm)) (emit (Mkdir od) s')"
  obtain tp s1 where a: "get_total_pages w nm ?a = (tp, s1)" by (cases "get_total_pages w nm ?a")
  obtain tp' s1' where b: "get_total_pages w nm ?b = (tp', s1')" by (cases "get_total_pages w nm ?b")
  from static_total_pages [OF assms, of nm ?a ?b] a b have "tp' = tp" by simp
  with a b show ?thesis
    using static_page_loop [OF assms, of nm tp "[1 ..< tp + 1]" "{}"
        "emit (Print (Msg_found_pages tp)) s1" "emit (Print (Msg_found_pages tp)) s1'"]
    by (simp add: collected_def del: upt_Suc)
qed

lemma path_exists_mono:
  "dom fs \<subseteq> dom fs' \<Longrightarrow> path_exists fs od fn \<Longrightarrow> path_exists fs' od fn"
  by (auto simp: path_exists_def)

lemma nothing_to_fetch_mono:
  "dom fs \<subseteq> dom fs' \<Longrightarrow> nothing_to_fetch w od fs iu \<Longrightarrow> nothing_to_fetch w od fs' iu"
  using path_exists_mono [of fs fs' od]
  by (auto simp: nothing_to_fetch_def split: option.splits)

lemma fetch_card_first:
  assumes "static w"
  shows "dom (files s) \<subseteq> dom (files (snd (fetch_card w od d iu s)))
    \<and> nothing_to_fetch w od (files (snd (fetch_card w od d iu s))) iu"
proof (cases iu)
  case None
  then show ?thesis by (simp add: fetch_card_def nothing_to_fetch_def)
next
  case (Some u)
  let ?p = "path_join od (split_last (CHR ''/'') u)"
  show ?thesis
  proof (cases "u = [] \<or> path_exists (files s) od (split_last (CHR ''/'') u)")
    case True
    with Some show ?thesis by (auto simp: fetch_card_def nothing_to_fetch_def Let_def)
  next
    case False
    show ?thesis
    proof (cases "fetch_stream w 0 (image_request u)")
      case None
      with False Some static_fetch(2) [OF assms, of "clock s"] show ?thesis
        by (simp add: fetch_card_def nothing_to_fetch_def Let_def download_image_def)
    next
      case (Some body)
      obtain chunks complete where body: "body = (chunks, complete)" by (cases body)
      show ?thesis
      proof (cases "?p = []")
        case True
        with body Some False \<open>iu = Some u\<close> static_fetch(2) [OF assms, of "clock s"] show ?thesis
          by (simp add: fetch_card_def nothing_to_fetch_def Let_def download_image_def)
      next
        case nonempty: False
        with body Some False \<open>iu = Some u\<close> static_fetch(2) [OF assms, of "clock s"] show ?thesis
          by (auto simp: fetch_card_def nothing_to_fetch_def Let_def download_image_def
              path_exists_def)
      qed
    qed
  qed
qed

lemma fetch_card_second:
  assumes "static w" and "nothing_to_fetch w od (files s) iu"
  shows "fst (fetch_card w od d iu s) = d
    \<and> files (snd (fetch_card w od d iu s)) = files s
    \<and> writes_of (trace (snd (fetch_card w od d iu s))) = writes_of (trace s)"
proof (cases iu)
  case None
  then show ?thesis by (simp add: fetch_card_def writes_of_simps)
next
  case (Some u)
  let ?p = "path_join od (split_last (CHR ''/'') u)"
  show ?thesis
  proof (cases "u = [] \<or> path_exists (files s) od (split_last (CHR ''/'') u)")
    case True
    with Some show ?thesis by (auto simp: fetch_card_def Let_def writes_of_simps)
  next
    case False
    with assms(2) Some have "fetch_stream w 0 (image_request u) = None \<or> ?p = []"
      by (simp add: nothing_to_fetch_def)
    then show ?thesis
    proof
      assume "fetch_stream w 0 (image_request u) = None"
      with False Some static_fetch(2) [OF assms(1), of "clock s"] show ?thesis
        by (simp add: fetch_card_def Let_def download_image_def writes_of_simps)
    next
      assume "?p = []"
      with False Some show ?thesis
        by (simp add: fetch_card_def Let_def download_image_def writes_of_simps
            split: option.splits prod.splits)
    qed
  qed
qed

lemma process_card_unfold:
  "process_card w nm od n idx c (d, s) =
     (fst (fetch_card w od d (fst (get_card_image_url w c (Some nm) (emit (Print (Msg_processing idx n c)) s)))
             (snd (get_card_image_url w c (Some nm) (emit (Print (Msg_processing idx n c)) s)))),
      emit (Print (Msg_complete
          (fst (fetch_card w od d (fst (get_card_image_url w c (Some nm) (emit (Print (Msg_processing idx n c)) s)))
             (snd (get_card_image_url w c (Some nm) (emit (Print (Msg_processing idx n c)) s))))) od))
        (emit (Sleep 500)
          (snd (fetch_card w od d (fst (get_card_image_url w c (Some nm) (emit (Print (Msg_processing idx n c)) s)))
             (snd (get_card_image_url w c (Some nm) (emit (Print (Msg_processing idx n c)) s)))))))"
  by (simp add: process_card_def case_prod_beta Let_def)

lemma process_card_first:
  assumes "static w"
  shows "dom (files (snd acc)) \<subseteq> dom (files (snd (process_card w nm od n idx c acc)))
    \<and> nothing_to_fetch w od (files (snd (process_card w nm od n idx c acc))) (image_of w c)"
proof -
  obtain d s where acc: "acc = (d, s)" by (cases acc)
  let ?g = "get_card_image_url w c (Some nm) (emit (Print (Msg_processing idx n c)) s)"
  have "fst ?g = image_of w c" "files (snd ?g) = files s"
    by (simp_all add: static_card_image_url [OF assms] files_card_image_url)
  with fetch_card_first [OF assms, of "snd ?g" od d "fst ?g"] show ?thesis
    unfolding acc process_card_unfold by simp
qed

lemma process_card_second:
  assumes "static w" and "nothing_to_fetch w od (files (snd acc)) (image_of w c)"
  shows "fst (process_card w nm od n idx c acc) = fst acc
    \<and> files (snd (process_card w nm od n idx c acc)) = files (snd acc)
    \<and> writes_of (trace (snd (process_card w nm od n idx c acc))) = writes_of (trace (snd acc))"
proof -
  obtain d s where acc: "acc = (d, s)" by (cases acc)
  let ?g = "get_card_image_url w c (Some nm) (emit (Print (Msg_processing idx n c)) s)"
  have g: "fst ?g = image_of w c" "files (snd ?g) = files s"
    "writes_of (trace (snd ?g)) = writes_of (trace s)"
    by (simp_all add: static_card_image_url [OF assms(1)] files_card_image_url writes_of_simps)
  with assms(2) acc have "nothing_to_fetch w od (files (snd ?g)) (fst ?g)" by simp
  from fetch_card_second [OF assms(1) this, of d] g show ?thesis
    unfolding acc process_card_unfold by (simp add: writes_of_simps)
qed

lemma card_loop_first:
  assumes "static w"
  shows "dom (files (snd acc)) \<subseteq> dom (files (snd (card_loop w nm od n idx cs acc)))
    \<and> list_all (\<lambda>c. nothing_to_fetch w od (files (snd (card_loop w nm od n idx cs acc))) (image_of w c)) cs"
proof (induction cs arbitrary: idx acc)
  case Nil
  show ?case by simp
next
  case (Cons c cs)
  let ?acc = "process_card w nm od n idx c acc"
  let ?end = "files (snd (card_loop w nm od n (Suc idx) cs ?acc))"
  from Cons.IH [where idx = "Suc idx" and acc = ?acc]
  have rest: "dom (files (snd ?acc)) \<subseteq> dom ?end"
    "list_all (\<lambda>c. nothing_to_fetch w od ?end (image_of w c)) cs"
    by simp_all
  from process_card_first [OF assms, of acc nm od n idx c]
  have here: "dom (files (snd acc)) \<subseteq> dom (files (snd ?acc))"
    "nothing_to_fetch w od (files (snd ?acc)) (image_of w c)"
    by simp_all
  from nothing_to_fetch_mono [OF rest(1) here(2)] rest here(1) show ?case
    by auto
qed

lemma card_loop_second:
  assumes "static w"
  shows "list_all (\<lambda>c. nothing_to_fetch w od (files (snd acc)) (image_of w c)) cs \<Longrightarrow>
    fst (card_loop w nm od n idx cs acc) = fst acc
    \<and> files (snd (card_loop w nm od n idx cs acc)) = files (snd acc)
    \<and> writes_of (trace (snd (card_loop w nm od n idx cs acc))) = writes_of (trace (snd acc))"
proof (induction cs arbitrary: idx acc)
  case Nil
  show ?case by simp
next
  case (Cons c cs)
  let ?acc = "process_card w nm od n idx c acc"
  from Cons.prems have "nothing_to_fetch w od (files (snd acc)) (image_of w c)" by simp
  from process_card_second [OF assms this, of nm n idx]
  have same: "fst ?acc = fst acc" "files (snd ?acc) = files (snd acc)"
    "writes_of (trace (snd ?acc)) = writes_of (trace (snd acc))"
    by simp_all
  with Cons.prems have "list_all (\<lambda>c. nothing_to_fetch w od (files (snd ?acc)) (image_of w c)) cs"
    by simp
  from Cons.IH [OF this, where idx = "Suc idx"] same show ?case by simp
qed

text \<open>The lines 128 to 163, split at the start of the loop over the cards\<close>

lemma scrape_split:
  "\<exists>s2. files s2 = files s \<and> writes_of (trace s2) = writes_of (trace s)
     \<and> scrape w nm od s =
         (if fst (get_total_pages w nm s) = 0 then (None, s2)
          else (Some (fst (card_loop w nm od (card (collected w nm od s)) 1
                             (sorted_list_of_set (collected w nm od s)) (0, s2))),
                snd (card_loop w nm od (card (collected w nm od s)) 1
                             (sorted_list_of_set (collected w nm od s)) (0, s2))))"
proof -
  let ?s0 = "emit (Print (Msg_searching nm)) (emit (Mkdir od) s)"
  obtain tp s1 where g: "get_total_pages w nm ?s0 = (tp, s1)" by (cases "get_total_pages w nm ?s0")
  with total_pages_emit [of w nm "Print (Msg_searching nm)" "emit (Mkdir od) s"]
    total_pages_emit [of w nm "Mkdir od" s]
  have tp: "fst (get_total_pages w nm s) = tp" by simp
  from files_total_pages [of w nm ?s0] g
  have s1: "files s1 = files s" "writes_of (trace s1) = writes_of (trace s)"
    by (simp_all add: writes_of_simps)
  show ?thesis
  proof (cases "tp = 0")
    case True
    with g tp s1 show ?thesis
      by (intro exI [of _ "emit (Print (Msg_no_results nm)) s1"])
        (simp add: scrape_def writes_of_simps)
  next
    case False
    let ?s1 = "emit (Print (Msg_found_pages tp)) s1"
    obtain U s2 where pl: "page_loop w nm tp [1 ..< tp + 1] ({}, ?s1) = (U, s2)"
      by (cases "page_loop w nm tp [1 ..< tp + 1] ({}, ?s1)")
    with files_page_loop [of w nm tp "[1 ..< tp + 1]" "({}, ?s1)"] s1
    have s2: "files s2 = files s" "writes_of (trace s2) = writes_of (trace s)"
      by (simp_all add: writes_of_simps del: upt_Suc)
    have U: "collected w nm od s = U"
      using g pl by (simp add: collected_def del: upt_Suc)
    from False g tp pl s2 show ?thesis
      unfolding U
      by (intro exI [of _ "emit (Print (Msg_found_unique (card U))) s2"])
        (simp add: scrape_def writes_of_simps case_prod_beta del: upt_Suc)
  qed
qed

lemma second_run:
  assumes "static w"
    and "scrape w nm od s = (r1, s1)"
    and "scrape w nm od s1 = (r2, s2)"
  shows "(r2 = None \<or> r2 = Some 0) \<and> files s2 = files s1
    \<and> writes_of (trace s2) = writes_of (trace s1)"
proof -
  let ?C = "collected w nm od s"
  have C: "collected w nm od s1 = ?C"
    by (rule static_collected [OF assms(1)])
  have T: "fst (get_total_pages w nm s1) = fst (get_total_pages w nm s)"
    by (rule static_total_pages [OF assms(1)])
  from scrape_split [of s w nm od] obtain sa
    where sa: "files sa = files s"
      and run1: "scrape w nm od s =
         (if fst (get_total_pages w nm s) = 0 then (None, sa)
          else (Some (fst (card_loop w nm od (card ?C) 1 (sorted_list_of_set ?C) (0, sa))),
                snd (card_loop w nm od (card ?C) 1 (sorted_list_of_set ?C) (0, sa))))"
    by blast
  from scrape_split [of s1 w nm od] obtain sb
    where sb: "files sb = files s1" "writes_of (trace sb) = writes_of (trace s1)"
      and run2: "scrape w nm od s1 =
         (if fst (get_total_pages w nm s) = 0 then (None, sb)
          else (Some (fst (card_loop w nm od (card ?C) 1 (sorted_list_of_set ?C) (0, sb))),
                snd (card_loop w nm od (card ?C) 1 (sorted_list_of_set ?C) (0, sb))))"
    unfolding C T by blast
  show ?thesis
  proof (cases "fst (get_total_pages w nm s) = 0")
    case True
    with run2 assms(3) sb show ?thesis by simp
  next
    case False
    with run1 assms(2)
    have s1: "s1 = snd (card_loop w nm od (card ?C) 1 (sorted_list_of_set ?C) (0, sa))"
      by simp
    from card_loop_first [OF assms(1), of "(0, sa)" nm od "card ?C" 1 "sorted_list_of_set ?C"]
    have "list_all (\<lambda>c. nothing_to_fetch w od (files s1) (image_of w c)) (sorted_list_of_set ?C)"
      unfolding s1 by simp
    with sb(1)
    have "list_all (\<lambda>c. nothing_to_fetch w od (files (snd (0::nat, sb))) (image_of w c))
        (sorted_list_of_set ?C)"
      by simp
    from card_loop_second [OF assms(1) this, of nm "card ?C" 1] False run2 assms(3) sb
    show ?thesis by auto
  qed
qed

lemma skip_existing:
  assumes "fetch_page w (clock s) (card_request c) = Some sp"
    and "image_url_of sp = Some u"
    and "path_join od (split_last (CHR ''/'') u) \<in> dom (files s)"
  shows "fst (process_card w nm od n idx c (d, s)) = d
    \<and> files (snd (process_card w nm od n idx c (d, s))) = files s
    \<and> writes_of (trace (snd (process_card w nm od n idx c (d, s)))) = writes_of (trace s)
    \<and> requests_of (trace (snd (process_card w nm od n idx c (d, s))))
        = requests_of (trace s) @ [card_request c]"
proof -
  let ?s1 = "emit (Print (Msg_processing idx n c)) s"
  have g: "get_card_image_url w c (Some nm) ?s1 = (Some u, http_get (card_request c) ?s1)"
    using assms(1,2) by (simp add: get_card_image_url_def)
  have "fetch_card w od d (Some u) (http_get (card_request c) ?s1)
      = (d, emit (Print (if u = [] then Msg_no_image else Msg_already (split_last (CHR ''/'') u)))
              (http_get (card_request c) ?s1))"
    using assms(3) by (simp add: fetch_card_def Let_def path_exists_def)
  with g show ?thesis
    unfolding process_card_unfold
    by (simp add: writes_of_simps requests_of_simps)
qed

text \<open>
  C5. When the image URL extracted for a card names a file that is in the output
  directory, the turn of the loop for that card requests the card page only: it
  fetches no image, writes no file, leaves the files as they are and does not count
  a download. And when the lines 128 to 163 of \<open>download_pokemon_cards\<close> are run
  twice for the same query on a site whose answers stay the same, the second run
  downloads nothing: its count is 0 (or it ends at the pagination check), it writes no
  file, and the files stay as the first run left them.
\<close>

theorem existing_files_are_skipped:
  "(fetch_page w (clock s) (card_request c) = Some sp \<and> image_url_of sp = Some u
      \<and> path_join od (split_last (CHR ''/'') u) \<in> dom (files s) \<longrightarrow>
      fst (process_card w nm od n idx c (d, s)) = d
      \<and> files (snd (process_card w nm od n idx c (d, s))) = files s
      \<and> writes_of (trace (snd (process_card w nm od n idx c (d, s)))) = writes_of (trace s)
      \<and> requests_of (trace (snd (process_card w nm od n idx c (d, s))))
          = requests_of (trace s) @ [card_request c])
   \<and> (static w \<and> scrape w nm od s = (r1, s1) \<and> scrape w nm od s1 = (r2, s2) \<longrightarrow>
      (r2 = None \<or> r2 = Some 0) \<and> files s2 = files s1
      \<and> writes_of (trace s2) = writes_of (trace s1))"
  using skip_existing [of w s c sp u od nm n idx d] second_run [of w nm od s r1 s1 r2 s2]
  by blast

text \<open>
  C5 on the site with two cards: the first run downloads both images, the second run
  none, and a card whose file is there costs one request.
\<close>

theorem existing_files_are_skipped_witness:
  "fst (scrape two_cards ''pikachu'' ''./cards'' fresh) = Some 2
   \<and> writes_of (trace (snd (scrape two_cards ''pikachu'' ''./cards'' fresh)))
       = [''./cards/Pikachu.BS.58.png'', ''./cards/Pikachu.JU.60.png'']
   \<and> fst (scrape two_cards ''pikachu'' ''./cards'' (snd (scrape two_cards ''pikachu'' ''./cards'' fresh)))
       = Some 0
   \<and> writes_of (trace (snd (scrape two_cards ''pikachu'' ''./cards''
         (snd (scrape two_cards ''pikachu'' ''./cards'' fresh)))))
       = [''./cards/Pikachu.BS.58.png'', ''./cards/Pikachu.JU.60.png'']
   \<and> requests_of (trace (snd (process_card two_cards ''pikachu'' ''./cards'' 2 1
         ''https://www.pokellector.com/Base-Expansion/Pikachu-Card-58''
         (0, snd (scrape two_cards ''pikachu'' ''./cards'' fresh)))))
       = requests_of (trace (snd (scrape two_cards ''pikachu'' ''./cards'' fresh)))
         @ [card_request ''https://www.pokellector.com/Base-Expansion/Pikachu-Card-58'']"
proof -
  let ?run1 = "scrape two_cards ''pikachu'' ''./cards'' fresh"
  let ?run2 = "scrape two_cards ''pikachu'' ''./cards'' (snd ?run1)"
  let ?c = "''https://www.pokellector.com/Base-Expansion/Pikachu-Card-58''"
  let ?u = "''https://den-cards.pokellector.com/1/Pikachu.BS.58.png''"
  note skip = existing_files_are_skipped
    [where w = two_cards and s = "snd ?run1" and c = ?c and sp = "card_page ?u" and u = ?u
       and od = "''./cards''" and nm = "''pikachu''" and n = 2 and idx = 1 and d = 0]
  note twice = existing_files_are_skipped
    [where w = two_cards and s = fresh and nm = "''pikachu''" and od = "''./cards''"
       and ?r1.0 = "fst ?run1" and ?s1.0 = "snd ?run1" and ?r2.0 = "fst ?run2" and ?s2.0 = "snd ?run2"]
  have static: "static two_cards"
    by (simp add: static_def two_cards_def)
  have first: "fst ?run1 = Some 2"
    and written: "writes_of (trace (snd ?run1)) = [''./cards/Pikachu.BS.58.png'', ''./cards/Pikachu.JU.60.png'']"
    by code_simp+
  have again: "fst ?run2 \<noteq> None"
    by code_simp
  have page: "fetch_page two_cards (clock (snd ?run1)) (card_request ?c) = Some (card_page ?u)"
    and url: "image_url_of (card_page ?u) = Some ?u"
    and there: "path_join ''./cards'' (split_last (CHR ''/'') ?u) \<in> dom (files (snd ?run1))"
    by code_simp+
  from twice static have "fst ?run2 = None \<or> fst ?run2 = Some 0"
    and "writes_of (trace (snd ?run2)) = writes_of (trace (snd ?run1))"
    by simp_all
  moreover from skip page url there
  have "requests_of (trace (snd (process_card two_cards ''pikachu'' ''./cards'' 2 1 ?c (0, snd ?run1))))
       = requests_of (trace (snd ?run1)) @ [card_request ?c]"
    by blast
  ultimately show ?thesis using first written again by simp
qed

section \<open>Network failures do not end the run (C6)\<close>

text \<open>
  C6, as the code has it. A request that fails is logged and surfaced as \<open>[]\<close> by the
  search, as 0 by the pagination check, as \<open>None\<close> by the fetch of a card page and as
  \<open>False\<close> by the image download; an image stream that breaks is caught in the turn
  of its card, logged as an error and not counted. After a failed pagination check the run of the
  query ends with \<open>No results\<close>; otherwise every page from 1 to the number of pages is
  scraped and every card collected is processed, in sorted order, whatever fails on
  the way. No call of \<open>download_pokemon_cards\<close> ends with an exception of the network
  (only the end of standard input and the recursion limit of the interpreter can end
  it), and a call from another module always returns.
\<close>

theorem network_failures_are_contained:
  "(fetch_page w (clock s) (search_request nm page) = None \<longrightarrow>
      search_pokemon_cards w nm page s
        = ([], emit (Print Msg_search_error) (http_get (search_request nm page) s)))
   \<and> (fetch_page w (clock s) (search_request nm 1) = None \<longrightarrow>
      get_total_pages w nm s
        = (0, emit (Print Msg_pagination_error) (http_get (search_request nm 1) s)))
   \<and> (fetch_page w (clock s) (card_request c) = None \<longrightarrow>
      get_card_image_url w c pn s
        = (None, emit (Print Msg_card_page_error) (http_get (card_request c) s)))
   \<and> (fetch_stream w (clock s) (image_request u) = None \<longrightarrow>
      download_image w u p s
        = (Inr False, emit (Print Msg_image_error) (http_get (image_request u) s)))
   \<and> (fetch_stream w (clock s) (image_request u) = Some (chunks, False) \<and> u \<noteq> []
        \<and> \<not> path_exists (files s) od (split_last (CHR ''/'') u) \<longrightarrow>
      fst (fetch_card w od d (Some u) s) = d
      \<and> last (trace (snd (fetch_card w od d (Some u) s))) = Print Msg_error)
   \<and> (fst (get_total_pages w nm s) = 0 \<longrightarrow>
      fst (scrape w nm od s) = None
      \<and> scraped_of (trace (snd (scrape w nm od s))) = scraped_of (trace s)
      \<and> processed_of (trace (snd (scrape w nm od s))) = processed_of (trace s))
   \<and> (0 < fst (get_total_pages w nm s) \<longrightarrow>
      fst (scrape w nm od s) \<noteq> None
      \<and> scraped_of (trace (snd (scrape w nm od s)))
          = scraped_of (trace s) @ [1 ..< fst (get_total_pages w nm s) + 1]
      \<and> processed_of (trace (snd (scrape w nm od s)))
          = processed_of (trace s) @ sorted_list_of_set (collected w nm od s))
   \<and> (download_pokemon_cards w iv fuel nm od s = Some (out, s') \<longrightarrow>
      out = Returned \<or> out = Raised EOFError \<or> out = Raised RecursionError)
   \<and> (\<not> name_is_main iv \<longrightarrow>
      download_pokemon_cards w iv (Suc fuel) nm od s = Some (Returned, snd (scrape w nm od s)))"
proof (intro conjI impI)
  assume "fst (get_total_pages w nm s) = 0"
  from scrape_no_results(1,2,4) [OF this, of od]
  show "fst (scrape w nm od s) = None"
    and "scraped_of (trace (snd (scrape w nm od s))) = scraped_of (trace s)"
    and "processed_of (trace (snd (scrape w nm od s))) = processed_of (trace s)"
    by simp_all
next
  assume "0 < fst (get_total_pages w nm s)"
  from scrape_visits_all(1,2,4) [OF refl this, of od]
  show "fst (scrape w nm od s) \<noteq> None"
    and "scraped_of (trace (snd (scrape w nm od s)))
          = scraped_of (trace s) @ [1 ..< fst (get_total_pages w nm s) + 1]"
    and "processed_of (trace (snd (scrape w nm od s)))
          = processed_of (trace s) @ sorted_list_of_set (collected w nm od s)"
    by simp_all
next
  assume "download_pokemon_cards w iv fuel nm od s = Some (out, s')"
  with nesting [of w iv fuel]
  show "out = Returned \<or> out = Raised EOFError \<or> out = Raised RecursionError"
    by blast
next
  assume "\<not> name_is_main iv"
  then show "download_pokemon_cards w iv (Suc fuel) nm od s = Some (Returned, snd (scrape w nm od s))"
    by (cases "scrape w nm od s") (simp split: option.splits)
qed (simp_all add: search_pokemon_cards_def get_total_pages_def get_card_image_url_def
    download_image_def fetch_card_def Let_def split: if_splits)

text \<open>
  C6 on a site that answers nothing, and on a site where the search of page 2, the
  page of the first card and the stream of the second card's image fail.
\<close>

theorem network_failures_are_contained_witness:
  "search_pokemon_cards offline ''pikachu'' 1 fresh
     = ([], emit (Print Msg_search_error) (http_get (search_request ''pikachu'' 1) fresh))
   \<and> get_total_pages offline ''pikachu'' fresh
     = (0, emit (Print Msg_pagination_error) (http_get (search_request ''pikachu'' 1) fresh))
   \<and> fst (get_card_image_url offline ''https://www.pokellector.com/Base-Expansion/Pikachu-Card-58''
           None fresh) = None
   \<and> fst (download_image offline ''https://den-cards.pokellector.com/1/Pikachu.BS.58.png''
           ''./cards/Pikachu.BS.58.png'' fresh) = Inr False
   \<and> last (trace (snd (fetch_card flaky ''./cards'' 0
           (Some ''https://den-cards.pokellector.com/2/Pikachu.JU.60.png'') fresh))) = Print Msg_error
   \<and> fst (scrape offline ''pikachu'' ''./cards'' fresh) = None
   \<and> fst (scrape flaky ''pikachu'' ''./cards'' fresh) \<noteq> None
   \<and> scraped_of (trace (snd (scrape flaky ''pikachu'' ''./cards'' fresh))) = [1, 2]
   \<and> processed_of (trace (snd (scrape flaky ''pikachu'' ''./cards'' fresh)))
       = [''https://www.pokellector.com/Base-Expansion/Pikachu-Card-58'',
          ''https://www.pokellector.com/Jungle-Expansion/Pikachu-Card-60'']
   \<and> download_pokemon_cards flaky imported 1 ''pikachu'' ''./cards'' fresh
       = Some (Returned, snd (scrape flaky ''pikachu'' ''./cards'' fresh))"
proof -
  note down = network_failures_are_contained
    [where w = offline and s = fresh and nm = "''pikachu''" and page = 1 and od = "''./cards''"
       and c = "''https://www.pokellector.com/Base-Expansion/Pikachu-Card-58''" and pn = None
       and u = "''https://den-cards.pokellector.com/1/Pikachu.BS.58.png''"
       and p = "''./cards/Pikachu.BS.58.png''"]
  note up = network_failures_are_contained
    [where w = flaky and s = fresh and nm = "''pikachu''" and od = "''./cards''"
       and iv = imported and fuel = 0 and d = 0 and chunks = "[''PN'']"
       and u = "''https://den-cards.pokellector.com/2/Pikachu.JU.60.png''"]
  have broken: "fetch_stream flaky (clock fresh)
      (image_request ''https://den-cards.pokellector.com/2/Pikachu.JU.60.png'') = Some ([''PN''], False)"
    and named: "''https://den-cards.pokellector.com/2/Pikachu.JU.60.png'' \<noteq> []"
    and absent: "\<not> path_exists (files fresh) ''./cards''
      (split_last (CHR ''/'') ''https://den-cards.pokellector.com/2/Pikachu.JU.60.png'')"
    by code_simp+
  with up have err: "last (trace (snd (fetch_card flaky ''./cards'' 0
           (Some ''https://den-cards.pokellector.com/2/Pikachu.JU.60.png'') fresh))) = Print Msg_error"
    by blast
  have no_page: "fetch_page offline t rq = None" and no_stream: "fetch_stream offline t rq = None"
    for t rq
    by (simp_all add: offline_def)
  have pages: "fst (get_total_pages flaky ''pikachu'' fresh) = 2"
    by code_simp
  have cards: "sorted_list_of_set (collected flaky ''pikachu'' ''./cards'' fresh)
      = [''https://www.pokellector.com/Base-Expansion/Pikachu-Card-58'',
         ''https://www.pokellector.com/Jungle-Expansion/Pikachu-Card-60'']"
    by code_simp
  have start: "scraped_of (trace fresh) = []" "processed_of (trace fresh) = []"
    by code_simp+
  have lib: "\<not> name_is_main imported"
    by (simp add: imported_def)
  have a: "search_pokemon_cards offline ''pikachu'' 1 fresh
     = ([], emit (Print Msg_search_error) (http_get (search_request ''pikachu'' 1) fresh))"
    and b: "get_total_pages offline ''pikachu'' fresh
     = (0, emit (Print Msg_pagination_error) (http_get (search_request ''pikachu'' 1) fresh))"
    and c: "get_card_image_url offline ''https://www.pokellector.com/Base-Expansion/Pikachu-Card-58''
           None fresh = (None, emit (Print Msg_card_page_error)
             (http_get (card_request ''https://www.pokellector.com/Base-Expansion/Pikachu-Card-58'') fresh))"
    and d: "download_image offline ''https://den-cards.pokellector.com/1/Pikachu.BS.58.png''
           ''./cards/Pikachu.BS.58.png'' fresh = (Inr False, emit (Print Msg_image_error)
             (http_get (image_request ''https://den-cards.pokellector.com/1/Pikachu.BS.58.png'') fresh))"
    using down no_page no_stream by blast+
  from b have "fst (get_total_pages offline ''pikachu'' fresh) = 0"
    by simp
  with down have e: "fst (scrape offline ''pikachu'' ''./cards'' fresh) = None"
    by blast
  from up pages have f: "fst (scrape flaky ''pikachu'' ''./cards'' fresh) \<noteq> None"
    and g: "scraped_of (trace (snd (scrape flaky ''pikachu'' ''./cards'' fresh)))
          = scraped_of (trace fresh) @ [1 ..< 2 + 1]"
    and h: "processed_of (trace (snd (scrape flaky ''pikachu'' ''./cards'' fresh)))
          = processed_of (trace fresh)
            @ sorted_list_of_set (collected flaky ''pikachu'' ''./cards'' fresh)"
    by simp_all
  from up lib have i: "download_pokemon_cards flaky imported 1 ''pikachu'' ''./cards'' fresh
       = Some (Returned, snd (scrape flaky ''pikachu'' ''./cards'' fresh))"
    by simp
  have "[1 ..< 2 + 1] = [1, 2::nat]"
    by code_simp
  with a b c d e f g h i err cards start show ?thesis
    by simp
qed

text \<open>
  C6 as the specification words it fails when the stream of an image breaks after the
  request has succeeded: \<open>download_image\<close> does not return \<open>False\<close>; the exception
  leaves it and is caught by the handler of the loop over the cards.
\<close>

theorem stream_failure_is_raised:
  "fetch_stream flaky (clock fresh)
      (image_request ''https://den-cards.pokellector.com/2/Pikachu.JU.60.png'') = Some ([''PN''], False)
   \<and> fst (download_image flaky ''https://den-cards.pokellector.com/2/Pikachu.JU.60.png''
           ''./cards/Pikachu.JU.60.png'' fresh) \<noteq> Inr False"
  by code_simp

section \<open>Names that are not validated (C7)\<close>

text \<open>
  C7 at two failing inputs: the script searches for the name \<open>pika@chu\<close> given on the
  command line, and for the name \<open>pika/chu\<close> typed at the first prompt, though
  \<open>is_valid_input\<close> rejects both: lines 191 to 199 never call it.
\<close>

theorem invalid_name_is_searched:
  "\<not> is_valid_input ''pika@chu''
   \<and> map_option (\<lambda>r. requests_of (trace (snd r)))
         (script offline [''scraper.py'', ''pika@chu''] 1 fresh)
       = Some [search_request ''pika@chu'' 1]
   \<and> \<not> is_valid_input ''pika/chu''
   \<and> map_option (\<lambda>r. requests_of (trace (snd r)))
         (script offline [''scraper.py''] 1 (fresh\<lparr>stdin := [''pika/chu'']\<rparr>))
       = Some [search_request ''pika/chu'' 1]"
  by code_simp

section \<open>The report of the count (C8)\<close>

text \<open>
  C8 at two failing inputs: with two cards, both downloaded, the report is printed
  twice, with the counts 1 and 2; with no card it is not printed at all. Line 163 is
  in the body of the loop over the cards.
\<close>

theorem report_printed_per_card:
  "(case scrape two_cards ''pikachu'' ''./cards'' fresh of
      (downloaded, s) \<Rightarrow> (downloaded, reports_of (trace s))) = (Some 2, [1, 2])
   \<and> (case scrape (serving []) ''pikachu'' ''./cards'' fresh of
      (downloaded, s) \<Rightarrow> (downloaded, reports_of (trace s))) = (Some 0, [])"
  by code_simp

section \<open>The loop of main inside download_pokemon_cards (C9)\<close>






lemma prompts_append: "prompts_of (es @ es') = prompts_of es @ prompts_of es'"
  by (simp add: prompts_of_def map_filter_append)

lemma observed_simps [simp]:
  "searched_of [] = []" "searched_of (Input q # es) = searched_of es"
  "searched_of (Print Msg_exiting # es) = searched_of es"
  "searched_of (Print Msg_invalid # es) = searched_of es"
  "prompts_of [] = []" "prompts_of (Input q # es) = q # prompts_of es"
  "prompts_of (Print m # es) = prompts_of es"
  by (simp_all add: searched_of_def prompts_of_def)












section \<open>The timeout of the image download (C10)\<close>

text \<open>
  C10, as the code has it: \<open>download_image\<close> issues one request, the streamed GET of
  the image URL, with the explicit timeout of 10 seconds that the page fetches have.
\<close>

theorem download_image_timeout:
  "requests_of (trace (snd (download_image w image_url output_path s)))
     = requests_of (trace s) @ [image_request image_url]
   \<and> req_stream (image_request image_url)
   \<and> req_timeout (image_request image_url) = Some 10
   \<and> req_timeout (image_request image_url) = req_timeout (card_request card_url)
   \<and> req_timeout (image_request image_url) = req_timeout (search_request pokemon_name page)"
  by (simp add: download_image_def http_get_def emit_def requests_of_simps Let_def
      image_request_def card_request_def search_request_def
      split: option.splits prod.splits)

text \<open>C10 on the download of one image from a site that does not answer\<close>

theorem download_image_timeout_witness:
  "requests_of (trace (snd (download_image offline
      ''https://den-cards.pokellector.com/1/Pikachu.BS.58.png'' ''./cards/Pikachu.BS.58.png'' fresh)))
     = [image_request ''https://den-cards.pokellector.com/1/Pikachu.BS.58.png'']
   \<and> req_timeout (image_request ''https://den-cards.pokellector.com/1/Pikachu.BS.58.png'') = Some 10"
  using download_image_timeout [of offline
      "''https://den-cards.pokellector.com/1/Pikachu.BS.58.png''" "''./cards/Pikachu.BS.58.png''" fresh]
  by (simp add: fresh_def requests_of_simps)

text \<open>
  C10 as the specification words it fails: the request of a download carries a
  timeout.
\<close>

theorem download_image_timeout_counterexample:
  "map req_timeout (requests_of (trace (snd
      (download_image two_cards ''https://den-cards.pokellector.com/1/Pikachu.BS.58.png''
         ''./cards/Pikachu.BS.58.png'' fresh)))) \<noteq> [None]"
  by code_simp

end
